theory Spec2Isabelle
  imports Main
begin

section \<open>Python strings\<close>

text \<open>
  \<^verbatim>\<open>s.split(sep)\<close> for a one-character separator: one part more than there are
  separators, empty parts kept (\<^verbatim>\<open>"/A".split("/") == ["", "A"]\<close>,
  \<^verbatim>\<open>"".split("/") == [""]\<close>).
\<close>

fun str_split :: "char \<Rightarrow> string \<Rightarrow> string list" where
  "str_split sep [] = [[]]"
| "str_split sep (c # cs) =
     (if c = sep then [] # str_split sep cs
      else (c # hd (str_split sep cs)) # tl (str_split sep cs))"

text \<open>\<^verbatim>\<open>sep.join(parts)\<close>.\<close>

fun str_join :: "string \<Rightarrow> string list \<Rightarrow> string" where
  "str_join sep [] = []"
| "str_join sep [x] = x"
| "str_join sep (x # y # ys) = x @ sep @ str_join sep (y # ys)"

text \<open>\<^verbatim>\<open>s.rfind(c)\<close>: the index of the last occurrence, or -1.\<close>

fun rfind :: "char \<Rightarrow> string \<Rightarrow> int" where
  "rfind c [] = - 1"
| "rfind c (x # xs) =
     (let r = rfind c xs in if 0 \<le> r then r + 1 else if x = c then 0 else - 1)"

text \<open>
  \<^verbatim>\<open>Path(name).suffix\<close> of a name without separators, as pathlib computes it:
  the text from the last dot, unless that dot is the first or the last character.
\<close>

definition suffix :: "string \<Rightarrow> string" where
  "suffix nm =
     (let i = rfind CHR ''.'' nm
      in if 0 < i \<and> i < int (length nm) - 1 then drop (nat i) nm else [])"

text \<open>
  \<^verbatim>\<open>s.lower()\<close>. A \<^typ>\<open>char\<close> is a code point below 256, and the strings of the
  model are the Python strings over these. On them \<^verbatim>\<open>str.lower\<close> works character
  by character: the capitals \<^verbatim>\<open>A\<close> to \<^verbatim>\<open>Z\<close> (65 to 90) and the Latin-1 capitals (192 to
  222, without the sign at 215) go to the small letter 32 places on, and every other
  character, the sharp s (223) and the micro sign (181) among them, stays.
\<close>

definition lower_char :: "char \<Rightarrow> char" where
  "lower_char c =
     (let n = (of_char c :: nat)
      in if (65 \<le> n \<and> n \<le> 90) \<or> (192 \<le> n \<and> n \<le> 222 \<and> n \<noteq> 215)
         then char_of (n + 32) else c)"

definition lower :: "string \<Rightarrow> string" where
  "lower s = map lower_char s"

section \<open>Entries\<close>

text \<open>
  What the listing API returns: the SDK's \<^verbatim>\<open>FileMetadata\<close> and \<^verbatim>\<open>FolderMetadata\<close>,
  and any other metadata class (a deleted entry), which \<^verbatim>\<open>_process_entry\<close> answers
  with \<^verbatim>\<open>None\<close>. \<^verbatim>\<open>server_modified\<close> holds the text \<^verbatim>\<open>isoformat()\<close> gives.
\<close>

datatype metadata =
    is_FileMetadata: FileMetadata (md_name: string) (path_display: string) (md_path_lower: string)
      (md_size: int) (server_modified: "string option") (md_content_hash: "string option")
      (md_rev: string) (md_id: string)
  | is_FolderMetadata: FolderMetadata (md_name: string) (path_display: string)
      (md_path_lower: string) (md_id: string)
  | DeletedMetadata (md_name: string) (path_display: string) (md_path_lower: string)

text \<open>
  The inventory dict of one entry. The key \<^verbatim>\<open>'type'\<close> is \<open>entry_type\<close>; the float
  \<^verbatim>\<open>'size_mb'\<close> is a rounding of \<open>size_bytes\<close> and is left out.
\<close>

record entry =
  entry_type :: string
  name :: string
  path :: string
  path_lower :: string
  extension :: "string option"
  size_bytes :: int
  modified :: "string option"
  content_hash :: "string option"
  revision :: "string option"
  dropbox_id :: string
  folder_depth :: int
  parent_folder :: string

text \<open>\<^verbatim>\<open>x or None\<close> and \<^verbatim>\<open>x or '/'\<close> on strings: the empty string is falsy.\<close>

definition or_none :: "string \<Rightarrow> string option" where
  "or_none s = (if s = [] then None else Some s)"

definition or_else :: "string \<Rightarrow> string \<Rightarrow> string" where
  "or_else s d = (if s = [] then d else s)"

text \<open>
  \<^verbatim>\<open>_process_entry\<close>, the same dict in \<^verbatim>\<open>DropboxInventory\<close> and in
  \<^verbatim>\<open>HybridInventory\<close> (the former also records the folder in \<^verbatim>\<open>folders_seen\<close>,
  see \<open>dbx_process_entry\<close> below).
\<close>

fun process_entry :: "metadata \<Rightarrow> entry option" where
  "process_entry (FileMetadata nm pd pl sz sm ch rv i) =
     (let parts = str_split CHR ''/'' pd
      in Some \<lparr> entry_type = ''file'', name = nm, path = pd, path_lower = pl,
                extension = or_none (lower (suffix nm)), size_bytes = sz,
                modified = sm, content_hash = ch, revision = Some rv, dropbox_id = i,
                folder_depth = int (length parts) - 1,
                parent_folder = or_else (str_join ''/'' (butlast parts)) ''/'' \<rparr>)"
| "process_entry (FolderMetadata nm pd pl i) =
     (let parts = str_split CHR ''/'' pd
      in Some \<lparr> entry_type = ''folder'', name = nm, path = pd, path_lower = pl,
                extension = None, size_bytes = 0,
                modified = None, content_hash = None, revision = None, dropbox_id = i,
                folder_depth = int (length parts) - 1,
                parent_folder = or_else (str_join ''/'' (butlast parts)) ''/'' \<rparr>)"
| "process_entry (DeletedMetadata nm pd pl) = None"

text \<open>
  The specification's reading of a path: its segments are the non-empty parts between
  the separators, so \<^verbatim>\<open>"/A"\<close> has one segment.
\<close>

definition spec_path_segments :: "string \<Rightarrow> string list" where
  "spec_path_segments p = filter (\<lambda>s. s \<noteq> []) (str_split CHR ''/'' p)"

text \<open>A canonical absolute path built from its segments: \<^verbatim>\<open>/seg1/seg2/...\<close>.\<close>

definition path_of_segments :: "string list \<Rightarrow> string" where
  "path_of_segments segs = concat (map (\<lambda>s. CHR ''/'' # s) segs)"

section \<open>The summary of an inventory\<close>

text \<open>
  A Python dict whose keys keep their insertion order, as an association list:
  \<^verbatim>\<open>d.get(k, default)\<close> and \<^verbatim>\<open>d[k] = v\<close>.
\<close>

fun dict_get :: "('k \<times> 'v) list \<Rightarrow> 'k \<Rightarrow> 'v \<Rightarrow> 'v" where
  "dict_get [] k dflt = dflt"
| "dict_get ((k', v') # d) k dflt = (if k' = k then v' else dict_get d k dflt)"

fun dict_set :: "'k \<Rightarrow> 'v \<Rightarrow> ('k \<times> 'v) list \<Rightarrow> ('k \<times> 'v) list" where
  "dict_set k v [] = [(k, v)]"
| "dict_set k v ((k', v') # d) =
     (if k' = k then (k, v) # d else (k', v') # dict_set k v d)"

text \<open>\<^verbatim>\<open>sum(...)\<close>: the additions Python makes, from 0, left to right.\<close>

definition py_sum :: "int list \<Rightarrow> int" where
  "py_sum xs = foldl (+) 0 xs"

text \<open>\<^verbatim>\<open>[e for e in self.entries if e['type'] == 'file']\<close>.\<close>

definition files_only :: "entry list \<Rightarrow> entry list" where
  "files_only es = filter (\<lambda>e. entry_type e = ''file'') es"

text \<open>\<^verbatim>\<open>entry.get('extension', '(none)') or '(none)'\<close>.\<close>

definition ext_key :: "entry \<Rightarrow> string" where
  "ext_key e = (case extension e of None \<Rightarrow> ''(none)'' | Some x \<Rightarrow> or_else x ''(none)'')"

text \<open>The loop filling \<^verbatim>\<open>ext_counts\<close> and \<^verbatim>\<open>ext_sizes\<close>, one file at a time.\<close>

definition count_ext :: "(string \<times> int) list \<Rightarrow> entry \<Rightarrow> (string \<times> int) list" where
  "count_ext ext_counts e = dict_set (ext_key e) (dict_get ext_counts (ext_key e) 0 + 1) ext_counts"

definition size_ext :: "(string \<times> int) list \<Rightarrow> entry \<Rightarrow> (string \<times> int) list" where
  "size_ext ext_sizes e =
     dict_set (ext_key e) (dict_get ext_sizes (ext_key e) 0 + size_bytes e) ext_sizes"

text \<open>
  The \<^verbatim>\<open>summary\<close> dict of the inventory file. \<^verbatim>\<open>DropboxInventory\<close> writes the call
  counter under \<^verbatim>\<open>'api_calls_made'\<close> and the sizes by type; \<^verbatim>\<open>HybridInventory\<close> writes
  the counter under \<^verbatim>\<open>'api_calls'\<close> and no sizes by type: a key that is not written is
  \<open>None\<close>. Left out: \<^verbatim>\<open>'generated'\<close>, a reading of the clock, and the roundings to
  gigabytes (\<^verbatim>\<open>'total_size_gb'\<close>; \<open>size_by_type\<close> holds the bytes that
  \<^verbatim>\<open>'size_by_type_gb'\<close> rounds).
\<close>

record summary =
  status :: string
  total_entries :: int
  total_files :: int
  total_folders :: int
  total_size_bytes :: int
  api_calls_made :: "int option"
  sum_api_calls :: "int option"
  file_types :: "(string \<times> int) list"
  size_by_type :: "(string \<times> int) list option"

text \<open>The summary \<^verbatim>\<open>DropboxInventory._save_inventory\<close> computes.\<close>

definition dbx_summary :: "entry list \<Rightarrow> bool \<Rightarrow> int \<Rightarrow> summary" where
  "dbx_summary es hm calls =
     (let fs = files_only es;
          total_size = py_sum (map size_bytes fs);
          ext_counts = foldl count_ext [] fs;
          ext_sizes = foldl size_ext [] fs
      in \<lparr> status = (if \<not> hm then ''complete'' else ''in_progress''),
           total_entries = int (length es),
           total_files = int (length fs),
           total_folders = int (length es) - int (length fs),
           total_size_bytes = total_size,
           api_calls_made = Some calls,
           sum_api_calls = None,
           file_types = ext_counts,
           size_by_type = Some ext_sizes \<rparr>)"

text \<open>The summary \<^verbatim>\<open>HybridInventory._save_all\<close> computes.\<close>

definition hybrid_summary :: "entry list \<Rightarrow> bool \<Rightarrow> int \<Rightarrow> summary" where
  "hybrid_summary es hm calls =
     (let fs = files_only es;
          total_size = py_sum (map size_bytes fs);
          ext_counts = foldl count_ext [] fs
      in \<lparr> status = (if \<not> hm then ''complete'' else ''in_progress''),
           total_entries = int (length es),
           total_files = int (length fs),
           total_folders = int (length es) - int (length fs),
           total_size_bytes = total_size,
           api_calls_made = None,
           sum_api_calls = Some calls,
           file_types = ext_counts,
           size_by_type = None \<rparr>)"

section \<open>The files on disk\<close>

text \<open>
  A JSON file is read with \<^verbatim>\<open>json.load\<close>, which raises on text that is not JSON
  (\<open>Unparsable\<close>) and returns the dict otherwise. The dicts are read with
  \<^verbatim>\<open>.get(key, default)\<close>, so every key is optional: \<open>None\<close> is an absent key (for
  \<^verbatim>\<open>'cursor'\<close>, also \<^verbatim>\<open>null\<close>). The checkpoint's \<^verbatim>\<open>'timestamp'\<close> is a reading of the
  clock and is left out. The CSV file is a projection of the entries that nothing
  reads back; it is not modelled.
\<close>

datatype 'a json_file = Unparsable | Parsed 'a

record checkpoint_json =
  ck_cursor :: "string option"
  ck_has_more :: "bool option"
  ck_entries_count :: "int option"
  ck_api_calls :: "int option"
  ck_folders_seen :: "string set option"

record inventory_json =
  inv_summary :: "summary option"
  inv_entries :: "entry list option"

text \<open>
  The four files: \<^verbatim>\<open>inventory_output/checkpoint.json\<close> and
  \<^verbatim>\<open>inventory_output/inventory.json\<close> (written by \<^verbatim>\<open>DropboxInventory\<close>, read by
  \<^verbatim>\<open>HybridInventory\<close> as the old progress), and the two files of the same names under
  \<^verbatim>\<open>inventory_output_hybrid/\<close>. \<open>None\<close> is a file that does not exist.
\<close>

record disk =
  old_checkpoint :: "checkpoint_json json_file option"
  old_inventory_json :: "inventory_json json_file option"
  hybrid_checkpoint :: "checkpoint_json json_file option"
  hybrid_inventory_json :: "inventory_json json_file option"

definition empty_disk :: disk where
  "empty_disk = \<lparr> old_checkpoint = None, old_inventory_json = None,
                   hybrid_checkpoint = None, hybrid_inventory_json = None \<rparr>"

section \<open>The retry policy: \<^verbatim>\<open>_api_call\<close>\<close>

text \<open>
  The exceptions of the run. \<^verbatim>\<open>RateLimitError\<close> carries its \<^verbatim>\<open>backoff\<close> (seconds, or
  \<^verbatim>\<open>None\<close>); \<^verbatim>\<open>ApiError\<close> is the SDK's route error (an invalid path);
  \<open>OtherHttpError\<close> stands for the SDK's other exceptions (\<^verbatim>\<open>BadInputError\<close>,
  \<^verbatim>\<open>AuthError\<close>), which no \<^verbatim>\<open>except\<close> clause of \<^verbatim>\<open>_api_call\<close> names.
\<close>

datatype exn =
    RateLimitError "nat option"
  | InternalServerError
  | ApiError string
  | OtherHttpError string
  | RuntimeError string
  | JSONDecodeError
  | KeyError string
  | FileNotFoundError

datatype 'a outcome = Returns 'a | Raises exn

text \<open>
  The \<^verbatim>\<open>except\<close> clauses in the source's order: the seconds to sleep before the next
  attempt, or \<open>None\<close> when the exception leaves \<^verbatim>\<open>_api_call\<close> (re-raised by the
  \<^verbatim>\<open>ApiError\<close> clause, or caught by no clause).
  \<^verbatim>\<open>e.backoff if e.backoff else (2 ** attempt)\<close>: a backoff of 0 is falsy.
\<close>

fun retry_wait :: "exn \<Rightarrow> nat \<Rightarrow> nat option" where
  "retry_wait (RateLimitError backoff) attempt =
     Some (case backoff of None \<Rightarrow> 2 ^ attempt
           | Some w \<Rightarrow> if w = 0 then 2 ^ attempt else w)"
| "retry_wait InternalServerError attempt = Some (2 ^ attempt)"
| "retry_wait e attempt = None"

definition max_retries :: nat where
  "max_retries = 5"

text \<open>
  \<^verbatim>\<open>for attempt in range(max_retries)\<close>: \<open>left\<close> attempts remain, \<open>func k\<close> is what
  the \<open>k\<close>-th invocation of the operation does. The state is the call counter
  \<^verbatim>\<open>self.api_calls\<close> and the log of the \<^verbatim>\<open>time.sleep\<close> calls. \<open>msg\<close> is the text of the
  final \<^verbatim>\<open>RuntimeError\<close>.
\<close>

fun api_call_from :: "nat \<Rightarrow> nat \<Rightarrow> (nat \<Rightarrow> 'a outcome) \<Rightarrow> string \<Rightarrow> int \<times> nat list
    \<Rightarrow> (exn + 'a) \<times> int \<times> nat list" where
  "api_call_from 0 attempt func msg (calls, slept) = (Inl (RuntimeError msg), calls, slept)"
| "api_call_from (Suc left) attempt func msg (calls, slept) =
     (case func attempt of
        Returns r \<Rightarrow> (Inr r, calls + 1, slept)
      | Raises e \<Rightarrow>
          (case retry_wait e attempt of
             Some wait \<Rightarrow> api_call_from left (Suc attempt) func msg (calls + 1, slept @ [wait])
           | None \<Rightarrow> (Inl e, calls + 1, slept)))"

definition api_call :: "(nat \<Rightarrow> 'a outcome) \<Rightarrow> string \<Rightarrow> int \<times> nat list
    \<Rightarrow> (exn + 'a) \<times> int \<times> nat list" where
  "api_call func msg st = api_call_from max_retries 0 func msg st"

text \<open>The specification's classes of failure.\<close>

definition retryable :: "exn \<Rightarrow> bool" where
  "retryable e = (case e of RateLimitError b \<Rightarrow> True | InternalServerError \<Rightarrow> True | _ \<Rightarrow> False)"

definition permanent :: "exn \<Rightarrow> bool" where
  "permanent e = (case e of ApiError m \<Rightarrow> True | OtherHttpError m \<Rightarrow> True | _ \<Rightarrow> False)"

text \<open>
  An operation given by a script: its first invocations do what the list says, in order,
  and every later one does \<open>rest\<close>.
\<close>

definition scripted :: "'a outcome list \<Rightarrow> 'a outcome \<Rightarrow> nat \<Rightarrow> 'a outcome" where
  "scripted script rest k = (if k < length script then script ! k else rest)"

section \<open>The remote listing API\<close>

text \<open>
  A \<^verbatim>\<open>ListFolderResult\<close>: the entries of one page, the cursor and \<^verbatim>\<open>has_more\<close>.
\<close>

record page =
  pg_entries :: "metadata list"
  pg_cursor :: string
  pg_has_more :: bool

text \<open>
  The two listing calls: \<^verbatim>\<open>files_list_folder(path, recursive=...)\<close> and
  \<^verbatim>\<open>files_list_folder_continue(cursor)\<close>. The remote is a parameter of the model:
  \<open>remote req k\<close> is what the \<open>k\<close>-th invocation of the request does inside one
  \<^verbatim>\<open>_api_call\<close> (it returns a page or raises).
\<close>

datatype request = ListFolder string bool | ListFolderContinue "string option"

type_synonym remote = "request \<Rightarrow> nat \<Rightarrow> page outcome"

section \<open>\<^verbatim>\<open>DropboxInventory\<close> (dropbox\_inv.py)\<close>

text \<open>
  The attributes of the object. \<open>slept\<close> logs the \<^verbatim>\<open>time.sleep\<close> calls and \<open>files\<close> is
  the disk. \<^verbatim>\<open>start_time\<close> and \<^verbatim>\<open>last_save_time\<close> are readings of the clock; what
  the code decides from them is the parameter \<open>due\<close> of \<open>should_save\<close>.
\<close>

record dropbox_inventory =
  entries :: "entry list"
  folders_seen :: "string set"
  api_calls :: int
  entries_since_save :: int
  cursor :: "string option"
  has_more :: bool
  is_running :: bool
  slept :: "nat list"
  files :: disk

text \<open>\<^verbatim>\<open>__init__\<close>, in a process that finds the disk \<open>d\<close>.\<close>

definition dbx_init :: "disk \<Rightarrow> dropbox_inventory" where
  "dbx_init d = \<lparr> entries = [], folders_seen = {}, api_calls = 0, entries_since_save = 0,
                  cursor = None, has_more = True, is_running = True, slept = [], files = d \<rparr>"

definition dbx_api_call :: "(nat \<Rightarrow> 'a outcome) \<Rightarrow> string \<Rightarrow> dropbox_inventory
    \<Rightarrow> (exn + 'a) \<times> dropbox_inventory" where
  "dbx_api_call func description st =
     (case api_call func (''Max retries exceeded for '' @ description) (api_calls st, slept st) of
        (r, calls, sl) \<Rightarrow> (r, st\<lparr>api_calls := calls, slept := sl\<rparr>))"

text \<open>\<^verbatim>\<open>_save_checkpoint\<close>.\<close>

definition save_checkpoint :: "dropbox_inventory \<Rightarrow> dropbox_inventory" where
  "save_checkpoint st =
     st\<lparr>files := (files st)\<lparr>old_checkpoint := Some (Parsed
          \<lparr> ck_cursor = cursor st,
            ck_has_more = Some (has_more st),
            ck_entries_count = Some (int (length (entries st))),
            ck_api_calls = Some (api_calls st),
            ck_folders_seen = Some (folders_seen st) \<rparr>)\<rparr>\<rparr>"

text \<open>\<^verbatim>\<open>d.get(key, default)\<close> on an optional key.\<close>

definition get_or :: "'a option \<Rightarrow> 'a \<Rightarrow> 'a" where
  "get_or v dflt = (case v of None \<Rightarrow> dflt | Some x \<Rightarrow> x)"

text \<open>
  \<^verbatim>\<open>_load_checkpoint\<close>: the inventory file first, when it exists, then the four
  assignments from the checkpoint (\<open>adopt_checkpoint\<close>). A file that is not JSON makes
  \<^verbatim>\<open>json.load\<close> raise, and nothing here catches it.
\<close>

definition adopt_checkpoint :: "checkpoint_json \<Rightarrow> dropbox_inventory \<Rightarrow> dropbox_inventory" where
  "adopt_checkpoint checkpoint st =
     st\<lparr>cursor := ck_cursor checkpoint,
        has_more := get_or (ck_has_more checkpoint) True,
        api_calls := get_or (ck_api_calls checkpoint) 0,
        folders_seen := get_or (ck_folders_seen checkpoint) {}\<rparr>"

definition load_checkpoint :: "dropbox_inventory \<Rightarrow> (exn + bool) \<times> dropbox_inventory" where
  "load_checkpoint st =
     (case old_checkpoint (files st) of
        None \<Rightarrow> (Inr False, st)
      | Some Unparsable \<Rightarrow> (Inl JSONDecodeError, st)
      | Some (Parsed checkpoint) \<Rightarrow>
          (case old_inventory_json (files st) of
             None \<Rightarrow> (Inr True, adopt_checkpoint checkpoint st)
           | Some Unparsable \<Rightarrow> (Inl JSONDecodeError, st)
           | Some (Parsed data) \<Rightarrow>
               (Inr True,
                adopt_checkpoint checkpoint (st\<lparr>entries := get_or (inv_entries data) []\<rparr>))))"

text \<open>\<^verbatim>\<open>_save_inventory\<close>: the summary is computed from the entries at every save.\<close>

definition save_inventory :: "dropbox_inventory \<Rightarrow> dropbox_inventory" where
  "save_inventory st =
     st\<lparr>files := (files st)\<lparr>old_inventory_json := Some (Parsed
          \<lparr> inv_summary = Some (dbx_summary (entries st) (has_more st) (api_calls st)),
            inv_entries = Some (entries st) \<rparr>)\<rparr>,
        entries_since_save := 0\<rparr>"

text \<open>
  \<^verbatim>\<open>_signal_handler\<close>, which ends the process with \<^verbatim>\<open>sys.exit(0)\<close> after the two saves.
\<close>

definition signal_handler :: "dropbox_inventory \<Rightarrow> dropbox_inventory" where
  "signal_handler st = save_inventory (save_checkpoint (st\<lparr>is_running := False\<rparr>))"

text \<open>\<^verbatim>\<open>_process_entry\<close> of this class: a folder is also added to \<^verbatim>\<open>folders_seen\<close>.\<close>

definition dbx_process_entry :: "metadata \<Rightarrow> dropbox_inventory
    \<Rightarrow> entry option \<times> dropbox_inventory" where
  "dbx_process_entry md st =
     (process_entry md,
      if is_FolderMetadata md
      then st\<lparr>folders_seen := insert (md_path_lower md) (folders_seen st)\<rparr> else st)"

text \<open>The body of \<^verbatim>\<open>for entry in result.entries\<close>: no check for a path already there.\<close>

definition append_processed :: "dropbox_inventory \<Rightarrow> metadata \<Rightarrow> dropbox_inventory" where
  "append_processed st md =
     (case dbx_process_entry md st of
        (None, st1) \<Rightarrow> st1
      | (Some processed, st1) \<Rightarrow>
          st1\<lparr>entries := entries st1 @ [processed],
              entries_since_save := entries_since_save st1 + 1\<rparr>)"

text \<open>One page: the loop over its entries, then the cursor and \<^verbatim>\<open>has_more\<close>.\<close>

definition take_page :: "page \<Rightarrow> dropbox_inventory \<Rightarrow> dropbox_inventory" where
  "take_page result st =
     (foldl append_processed st (pg_entries result))
       \<lparr>cursor := Some (pg_cursor result), has_more := pg_has_more result\<rparr>"

text \<open>
  \<^verbatim>\<open>_should_save\<close>: \<open>due c\<close> says whether 60 seconds have passed since the last save when
  the clock is read with the call counter at \<open>c\<close>.
\<close>

definition SAVE_INTERVAL_ENTRIES :: int where
  "SAVE_INTERVAL_ENTRIES = 1000"

definition should_save :: "(int \<Rightarrow> bool) \<Rightarrow> dropbox_inventory \<Rightarrow> bool" where
  "should_save due st = (due (api_calls st) \<or> SAVE_INTERVAL_ENTRIES \<le> entries_since_save st)"

text \<open>
  What one iteration of the pagination loop does with the page it fetched: the entries,
  the cursor, and the periodic save.
\<close>

definition loop_body :: "(int \<Rightarrow> bool) \<Rightarrow> page \<Rightarrow> dropbox_inventory \<Rightarrow> dropbox_inventory" where
  "loop_body due result st =
     (let st2 = take_page result st
      in if should_save due st2 then save_inventory (save_checkpoint st2) else st2)"

text \<open>How a run ends: it returns, the signal handler exits, an exception leaves it, or
  the model's fuel for the pagination loop is used up.\<close>

datatype run_end = Finished | Exited | Raised exn | OutOfFuel

text \<open>A Python string or \<^verbatim>\<open>None\<close> as a condition.\<close>

definition truthy :: "string option \<Rightarrow> bool" where
  "truthy c = (case c of None \<Rightarrow> False | Some s \<Rightarrow> s \<noteq> [])"

text \<open>
  The loop \<^verbatim>\<open>while self.has_more and self.is_running\<close>. The interrupt is a parameter:
  \<open>sig = Some n\<close> delivers SIGINT once \<open>n\<close> more pages are processed, between two
  pages; \<open>None\<close> is a run nobody interrupts. The first argument after \<open>due\<close> bounds the
  number of iterations.
\<close>

fun continue_pagination :: "remote \<Rightarrow> (int \<Rightarrow> bool) \<Rightarrow> nat \<Rightarrow> nat option
    \<Rightarrow> dropbox_inventory \<Rightarrow> run_end \<times> dropbox_inventory" where
  "continue_pagination remote due 0 sig st =
     (if sig = Some 0 then (Exited, signal_handler st)
      else if has_more st \<and> is_running st then (OutOfFuel, st)
      else (Finished, st))"
| "continue_pagination remote due (Suc fuel) sig st =
     (if sig = Some 0 then (Exited, signal_handler st)
      else if has_more st \<and> is_running st then
        (case dbx_api_call (remote (ListFolderContinue (cursor st))) ''list_folder_continue'' st of
           (Inl e, st1) \<Rightarrow> (Raised e, st1)
         | (Inr result, st1) \<Rightarrow>
             continue_pagination remote due fuel (map_option (\<lambda>n. n - 1) sig)
               (loop_body due result st1))
      else (Finished, st))"

text \<open>The branch "Fresh start" of \<^verbatim>\<open>run\<close>.\<close>

definition start_listing :: "remote \<Rightarrow> dropbox_inventory \<Rightarrow> run_end \<times> dropbox_inventory" where
  "start_listing remote st =
     (case dbx_api_call (remote (ListFolder [] True)) ''Initial list_folder''
             (st\<lparr>entries := [], cursor := None, has_more := True, api_calls := 0\<rparr>) of
        (Inl e, st1) \<Rightarrow> (Raised e, st1)
      | (Inr result, st1) \<Rightarrow> (Finished, take_page result st1))"

text \<open>The block "Final save" of \<^verbatim>\<open>run\<close>, which removes the checkpoint file.\<close>

definition final_save :: "dropbox_inventory \<Rightarrow> dropbox_inventory" where
  "final_save st =
     (if is_running st
      then (let st1 = save_inventory (save_checkpoint (st\<lparr>has_more := False\<rparr>))
            in st1\<lparr>files := (files st1)\<lparr>old_checkpoint := None\<rparr>\<rparr>)
      else st)"

text \<open>
  \<^verbatim>\<open>run(resume)\<close>. \<^verbatim>\<open>resume and self._load_checkpoint() and self.cursor\<close> does not load
  when \<^verbatim>\<open>resume\<close> is false.
\<close>

definition run :: "remote \<Rightarrow> (int \<Rightarrow> bool) \<Rightarrow> nat \<Rightarrow> nat option \<Rightarrow> bool
    \<Rightarrow> dropbox_inventory \<Rightarrow> run_end \<times> dropbox_inventory" where
  "run remote due fuel sig resume st =
     (if sig = Some 0 then (Exited, signal_handler st)
      else
        (case (if resume then load_checkpoint st else (Inr False, st)) of
           (Inl e, st1) \<Rightarrow> (Raised e, st1)
         | (Inr loaded, st1) \<Rightarrow>
             (case (if loaded \<and> truthy (cursor st1) then (Finished, st1, sig)
                    else (case start_listing remote st1 of
                            (r, st2) \<Rightarrow> (r, st2, map_option (\<lambda>n. n - 1) sig))) of
                (Finished, st2, sig2) \<Rightarrow>
                  (case continue_pagination remote due fuel sig2 st2 of
                     (Finished, st3) \<Rightarrow> (Finished, final_save st3)
                   | (r, st3) \<Rightarrow> (r, st3))
              | (r, st2, sig2) \<Rightarrow> (r, st2))))"



text \<open>
  The listing of the specification's end-to-end scenario: the root page holds the folder
  \<^verbatim>\<open>/A\<close> and the file \<^verbatim>\<open>/A/f.txt\<close> with cursor \<^verbatim>\<open>c1\<close>, and the page after \<^verbatim>\<open>c1\<close>
  holds the file \<^verbatim>\<open>/B.txt\<close> and ends the listing.
\<close>

definition page_root :: page where
  "page_root = \<lparr> pg_entries = [FolderMetadata ''A'' ''/A'' ''/a'' ''id:A'',
       FileMetadata ''f.txt'' ''/A/f.txt'' ''/a/f.txt'' 1024 None None ''r1'' ''id:f''],
     pg_cursor = ''c1'', pg_has_more = True \<rparr>"



text \<open>A remote whose continuation call is rate limited at every attempt.\<close>

definition throttled_remote :: remote where
  "throttled_remote req k =
     (case req of
        ListFolder p recursive \<Rightarrow> Returns page_root
      | ListFolderContinue c \<Rightarrow> Raises (RateLimitError None))"

definition never_due :: "int \<Rightarrow> bool" where
  "never_due c = False"

section \<open>\<^verbatim>\<open>HybridInventory\<close> (create\_inventory.py)\<close>

text \<open>
  The attributes of the object. \<^verbatim>\<open>entries_by_path\<close> is a dict from the path to the
  entry. \<open>h_logged\<close> collects the exceptions that \<^verbatim>\<open>_continue_recursive\<close> catches and
  logs, \<open>h_slept\<close> the \<^verbatim>\<open>time.sleep\<close> calls, \<open>h_files\<close> is the disk.
\<close>

record hybrid_inventory =
  h_entries :: "entry list"
  entries_by_path :: "(string \<times> entry) list"
  h_cursor :: "string option"
  h_has_more :: bool
  h_api_calls :: int
  h_is_running :: bool
  initial_entries :: int
  h_logged :: "exn list"
  h_slept :: "nat list"
  h_files :: disk

definition hybrid_init :: "disk \<Rightarrow> hybrid_inventory" where
  "hybrid_init d = \<lparr> h_entries = [], entries_by_path = [], h_cursor = None,
      h_has_more = True, h_api_calls = 0, h_is_running = True, initial_entries = 0,
      h_logged = [], h_slept = [], h_files = d \<rparr>"

text \<open>\<^verbatim>\<open>k in d\<close> for a dict.\<close>

definition dict_has :: "('k \<times> 'v) list \<Rightarrow> 'k \<Rightarrow> bool" where
  "dict_has d k = (k \<in> set (map fst d))"

text \<open>
  \<^verbatim>\<open>_add_entry\<close>: the argument is \<^verbatim>\<open>None\<close> when \<^verbatim>\<open>_process_entry\<close> returned nothing.
\<close>

definition add_entry :: "entry option \<Rightarrow> hybrid_inventory \<Rightarrow> bool \<times> hybrid_inventory" where
  "add_entry entry_dict st =
     (case entry_dict of
        None \<Rightarrow> (False, st)
      | Some e \<Rightarrow>
          if \<not> dict_has (entries_by_path st) (path e)
          then (True, st\<lparr>h_entries := h_entries st @ [e],
                         entries_by_path := dict_set (path e) e (entries_by_path st)\<rparr>)
          else (False, st))"

text \<open>\<^verbatim>\<open>for entry in ...: self._add_entry(entry)\<close>, the result not looked at.\<close>

definition add_entries :: "entry list \<Rightarrow> hybrid_inventory \<Rightarrow> hybrid_inventory" where
  "add_entries es st = foldl (\<lambda>s e. snd (add_entry (Some e) s)) st es"

text \<open>
  \<^verbatim>\<open>_load_old_progress\<close>, its three blocks in order. Each is a \<^verbatim>\<open>try\<close> whose
  \<^verbatim>\<open>except Exception\<close> prints and goes on, so a file that is not JSON leaves the state
  as the statements before \<^verbatim>\<open>json.load\<close> made it and \<^verbatim>\<open>loaded\<close> as it was. The first
  component is \<^verbatim>\<open>loaded\<close>.
\<close>

definition load_old_checkpoint :: "hybrid_inventory \<Rightarrow> bool \<times> hybrid_inventory" where
  "load_old_checkpoint st =
     (case old_checkpoint (h_files st) of
        Some (Parsed old_ck) \<Rightarrow>
          (True, st\<lparr>h_cursor := ck_cursor old_ck,
                     h_has_more := get_or (ck_has_more old_ck) True\<rparr>)
      | _ \<Rightarrow> (False, st))"

definition load_old_inventory :: "bool \<times> hybrid_inventory \<Rightarrow> bool \<times> hybrid_inventory" where
  "load_old_inventory ls =
     (case old_inventory_json (h_files (snd ls)) of
        Some (Parsed data) \<Rightarrow> (True, add_entries (get_or (inv_entries data) []) (snd ls))
      | _ \<Rightarrow> ls)"

definition load_own_progress :: "bool \<times> hybrid_inventory \<Rightarrow> bool \<times> hybrid_inventory" where
  "load_own_progress ls =
     (case hybrid_checkpoint (h_files (snd ls)) of
        Some (Parsed checkpoint) \<Rightarrow>
          (let st1 = (snd ls)\<lparr>h_cursor := ck_cursor checkpoint,
                              h_has_more := get_or (ck_has_more checkpoint) True,
                              h_api_calls := get_or (ck_api_calls checkpoint) 0\<rparr>
           in case hybrid_inventory_json (h_files st1) of
                None \<Rightarrow> (True, st1)
              | Some Unparsable \<Rightarrow> (fst ls, st1)
              | Some (Parsed data) \<Rightarrow>
                  (True, add_entries (get_or (inv_entries data) [])
                           (st1\<lparr>h_entries := [], entries_by_path := []\<rparr>)))
      | _ \<Rightarrow> ls)"

definition load_old_progress :: "hybrid_inventory \<Rightarrow> bool \<times> hybrid_inventory" where
  "load_old_progress st = load_own_progress (load_old_inventory (load_old_checkpoint st))"

text \<open>\<^verbatim>\<open>_save_all\<close>: the checkpoint, then the inventory with its summary.\<close>

definition save_all :: "hybrid_inventory \<Rightarrow> hybrid_inventory" where
  "save_all st =
     st\<lparr>h_files := (h_files st)\<lparr>
          hybrid_checkpoint := Some (Parsed
            \<lparr> ck_cursor = h_cursor st,
              ck_has_more = Some (h_has_more st),
              ck_entries_count = Some (int (length (h_entries st))),
              ck_api_calls = Some (h_api_calls st),
              ck_folders_seen = None \<rparr>),
          hybrid_inventory_json := Some (Parsed
            \<lparr> inv_summary =
                Some (hybrid_summary (h_entries st) (h_has_more st) (h_api_calls st)),
              inv_entries = Some (h_entries st) \<rparr>)\<rparr>\<rparr>"

definition hybrid_api_call :: "(nat \<Rightarrow> 'a outcome) \<Rightarrow> hybrid_inventory
    \<Rightarrow> (exn + 'a) \<times> hybrid_inventory" where
  "hybrid_api_call func st =
     (case api_call func ''Max retries exceeded'' (h_api_calls st, h_slept st) of
        (r, calls, sl) \<Rightarrow> (r, st\<lparr>h_api_calls := calls, h_slept := sl\<rparr>))"

text \<open>One page in \<^verbatim>\<open>HybridInventory\<close>: every processed entry goes through \<^verbatim>\<open>_add_entry\<close>.\<close>

definition hybrid_take_page :: "page \<Rightarrow> hybrid_inventory \<Rightarrow> hybrid_inventory" where
  "hybrid_take_page result st =
     (foldl (\<lambda>s md. snd (add_entry (process_entry md) s)) st (pg_entries result))
       \<lparr>h_cursor := Some (pg_cursor result), h_has_more := pg_has_more result\<rparr>"

text \<open>
  \<^verbatim>\<open>_continue_recursive\<close>. An exception of the iteration is caught, logged, and ends the
  loop with \<^verbatim>\<open>break\<close>; the method then returns. \<open>due c\<close> says whether 30 seconds have
  passed since the last save with the call counter at \<open>c\<close>. The result is \<open>None\<close> when
  the model's bound on the iterations is used up.
\<close>

fun continue_recursive :: "remote \<Rightarrow> (int \<Rightarrow> bool) \<Rightarrow> nat \<Rightarrow> hybrid_inventory
    \<Rightarrow> hybrid_inventory option" where
  "continue_recursive remote due 0 st =
     (if h_has_more st \<and> h_is_running st then None else Some st)"
| "continue_recursive remote due (Suc fuel) st =
     (if h_has_more st \<and> h_is_running st then
        (case hybrid_api_call (remote (ListFolderContinue (h_cursor st))) st of
           (Inl e, st1) \<Rightarrow> Some (st1\<lparr>h_logged := h_logged st1 @ [e]\<rparr>)
         | (Inr result, st1) \<Rightarrow>
             (let st2 = hybrid_take_page result st1
              in continue_recursive remote due fuel
                   (if due (h_api_calls st2) then save_all st2 else st2)))
      else Some st)"

text \<open>
  \<^verbatim>\<open>_start_fresh\<close>: the first listing call is outside any \<^verbatim>\<open>try\<close>, so its exception
  leaves the method.
\<close>

definition start_fresh :: "remote \<Rightarrow> (int \<Rightarrow> bool) \<Rightarrow> nat \<Rightarrow> hybrid_inventory
    \<Rightarrow> run_end \<times> hybrid_inventory" where
  "start_fresh remote due fuel st =
     (case hybrid_api_call (remote (ListFolder [] True)) st of
        (Inl e, st1) \<Rightarrow> (Raised e, st1)
      | (Inr result, st1) \<Rightarrow>
          (case continue_recursive remote due fuel (hybrid_take_page result st1) of
             None \<Rightarrow> (OutOfFuel, hybrid_take_page result st1)
           | Some st2 \<Rightarrow> (Finished, st2)))"

text \<open>The block "Final save" of \<^verbatim>\<open>HybridInventory.run\<close>.\<close>

definition hybrid_final_save :: "hybrid_inventory \<Rightarrow> hybrid_inventory" where
  "hybrid_final_save st =
     (if h_is_running st
      then (let st1 = save_all st
            in if \<not> h_has_more st1
               then st1\<lparr>h_files := (h_files st1)\<lparr>hybrid_checkpoint := None\<rparr>\<rparr>
               else st1)
      else st)"

text \<open>\<^verbatim>\<open>HybridInventory.run\<close>, in a run that no signal interrupts.\<close>

definition hybrid_run :: "remote \<Rightarrow> (int \<Rightarrow> bool) \<Rightarrow> nat \<Rightarrow> hybrid_inventory
    \<Rightarrow> run_end \<times> hybrid_inventory" where
  "hybrid_run remote due fuel st0 =
     (let st = snd (load_old_progress st0);
          st = st\<lparr>initial_entries := int (length (h_entries st))\<rparr>
      in case (if truthy (h_cursor st) \<and> h_has_more st
               then (case continue_recursive remote due fuel st of
                       None \<Rightarrow> (OutOfFuel, st)
                     | Some st1 \<Rightarrow> (Finished, st1))
               else if \<not> h_has_more st \<and> h_entries st \<noteq> [] then (Finished, st)
               else start_fresh remote due fuel st) of
           (Finished, st1) \<Rightarrow> (Finished, hybrid_final_save st1)
         | (r, st1) \<Rightarrow> (r, st1))"

text \<open>
  The invariant of the store: the paths of the entries are pairwise different, and the
  keys of \<^verbatim>\<open>entries_by_path\<close> are these paths.
\<close>

definition store_ok :: "hybrid_inventory \<Rightarrow> bool" where
  "store_ok st =
     (distinct (map path (h_entries st)) \<and>
      set (map fst (entries_by_path st)) = set (map path (h_entries st)))"

text \<open>Inserting the same entry \<open>n\<close> times in a row.\<close>

fun add_entry_times :: "nat \<Rightarrow> entry \<Rightarrow> hybrid_inventory \<Rightarrow> hybrid_inventory" where
  "add_entry_times 0 e st = st"
| "add_entry_times (Suc n) e st = add_entry_times n e (snd (add_entry (Some e) st))"

text \<open>The entry of the folder \<^verbatim>\<open>/A\<close>, and a file entry with the same path.\<close>

definition folder_A :: entry where
  "folder_A = \<lparr> entry_type = ''folder'', name = ''A'', path = ''/A'', path_lower = ''/a'',
      extension = None, size_bytes = 0, modified = None, content_hash = None,
      revision = None, dropbox_id = ''id:A'', folder_depth = 1, parent_folder = ''/'' \<rparr>"

definition file_A :: entry where
  "file_A = \<lparr> entry_type = ''file'', name = ''A'', path = ''/A'', path_lower = ''/a'',
      extension = None, size_bytes = 7, modified = None, content_hash = None,
      revision = Some ''r7'', dropbox_id = ''id:A2'', folder_depth = 1, parent_folder = ''/'' \<rparr>"

definition file_B :: entry where
  "file_B = \<lparr> entry_type = ''file'', name = ''B.txt'', path = ''/B.txt'',
      path_lower = ''/b.txt'', extension = Some ''.txt'', size_bytes = 2048, modified = None,
      content_hash = None, revision = Some ''r2'', dropbox_id = ''id:B'', folder_depth = 1,
      parent_folder = ''/'' \<rparr>"

text \<open>
  A disk with the old script's checkpoint and inventory and the hybrid script's own
  checkpoint and inventory, all four of them JSON.
\<close>

definition both_disk :: disk where
  "both_disk =
     \<lparr> old_checkpoint = Some (Parsed \<lparr> ck_cursor = Some ''old'', ck_has_more = Some False,
          ck_entries_count = Some 1, ck_api_calls = Some 5, ck_folders_seen = Some {''/a''} \<rparr>),
       old_inventory_json = Some (Parsed \<lparr> inv_summary = None, inv_entries = Some [folder_A] \<rparr>),
       hybrid_checkpoint = Some (Parsed \<lparr> ck_cursor = Some ''own'', ck_has_more = Some True,
          ck_entries_count = Some 1, ck_api_calls = Some 9, ck_folders_seen = None \<rparr>),
       hybrid_inventory_json = Some (Parsed \<lparr> inv_summary = None, inv_entries = Some [file_B] \<rparr>) \<rparr>"

text \<open>
  The same disk after a save of the hybrid script that did not finish: its inventory
  file is there and is not JSON.
\<close>

definition torn_disk :: disk where
  "torn_disk = both_disk\<lparr>hybrid_inventory_json := Some Unparsable\<rparr>"

text \<open>
  A checkpoint that says the listing is over and still holds a cursor, beside an
  inventory of one entry.
\<close>

definition contradictory_checkpoint :: checkpoint_json where
  "contradictory_checkpoint =
     \<lparr> ck_cursor = Some ''c1'', ck_has_more = Some False, ck_entries_count = Some 1,
       ck_api_calls = Some 3, ck_folders_seen = Some {''/a''} \<rparr>"

definition contradictory_disk :: disk where
  "contradictory_disk =
     \<lparr> old_checkpoint = Some (Parsed contradictory_checkpoint),
       old_inventory_json = Some (Parsed \<lparr> inv_summary = None, inv_entries = Some [folder_A] \<rparr>),
       hybrid_checkpoint = None, hybrid_inventory_json = None \<rparr>"

section \<open>The verifier (verify\_inventory.py)\<close>

definition get_inventory_folders_at_depth :: "entry list \<Rightarrow> int \<Rightarrow> entry list" where
  "get_inventory_folders_at_depth es depth =
     filter (\<lambda>e. entry_type e = ''folder'' \<and> folder_depth e = depth) es"

text \<open>
  The loop over one page of the shallow root listing: the \<^verbatim>\<open>path_display\<close> of a folder
  goes to \<^verbatim>\<open>api_root_folders\<close>, that of a file to \<^verbatim>\<open>api_root_files\<close>.
\<close>

definition sort_entry :: "string list \<times> string list \<Rightarrow> metadata \<Rightarrow> string list \<times> string list" where
  "sort_entry acc md =
     (if is_FolderMetadata md then (fst acc @ [path_display md], snd acc)
      else if is_FileMetadata md then (fst acc, snd acc @ [path_display md])
      else acc)"

definition sort_page :: "page \<Rightarrow> string list \<times> string list \<Rightarrow> string list \<times> string list" where
  "sort_page result acc = foldl sort_entry acc (pg_entries result)"

text \<open>
  \<^verbatim>\<open>while result.has_more\<close>: the verifier calls the API directly, without
  \<^verbatim>\<open>_api_call\<close>, so an exception of a call leaves \<^verbatim>\<open>main\<close>. \<open>None\<close> is a listing that
  has not ended when the model's bound on the iterations is used up.
\<close>

fun list_root_rest :: "remote \<Rightarrow> nat \<Rightarrow> page \<Rightarrow> string list \<times> string list
    \<Rightarrow> (exn + string list \<times> string list) option" where
  "list_root_rest remote 0 result acc =
     (if pg_has_more result then None else Some (Inr acc))"
| "list_root_rest remote (Suc fuel) result acc =
     (if pg_has_more result then
        (case remote (ListFolderContinue (Some (pg_cursor result))) 0 of
           Raises e \<Rightarrow> Some (Inl e)
         | Returns next_result \<Rightarrow>
             list_root_rest remote fuel next_result (sort_page next_result acc))
      else Some (Inr acc))"

definition list_root :: "remote \<Rightarrow> nat \<Rightarrow> (exn + string list \<times> string list) option" where
  "list_root remote fuel =
     (case remote (ListFolder [] False) 0 of
        Raises e \<Rightarrow> Some (Inl e)
      | Returns result \<Rightarrow> list_root_rest remote fuel result (sort_page result ([], [])))"

text \<open>
  What the root-set comparison and the final verdict of \<^verbatim>\<open>main\<close> produce: the two set
  differences, each printed path by path (the first under "Missing from inventory",
  the second under "Extra in inventory (deleted?)"), and the list \<^verbatim>\<open>issues\<close>, whose
  only possible member is the text "Missing n root folders".
\<close>

datatype issue = Missing_root_folders nat

record report =
  missing_in_inventory :: "string set"
  extra_in_inventory :: "string set"
  issues :: "issue list"

definition root_set_check :: "string list \<Rightarrow> entry list \<Rightarrow> report" where
  "root_set_check api_root_folders es =
     (let inv_root_folders = get_inventory_folders_at_depth es 1;
          inv_root_paths = map path inv_root_folders;
          api_set = set api_root_folders;
          inv_set = set inv_root_paths;
          missing = api_set - inv_set;
          extra = inv_set - api_set
      in \<lparr> missing_in_inventory = missing,
           extra_in_inventory = extra,
           issues = (if missing \<noteq> {} then [Missing_root_folders (card missing)] else []) \<rparr>)"

text \<open>
  \<^verbatim>\<open>main\<close>: the inventory is read from \<^verbatim>\<open>inventory_output_hybrid/inventory.json\<close>
  (\<^verbatim>\<open>data['entries']\<close> and \<^verbatim>\<open>data['summary']\<close> raise on an absent key), the root is
  listed, and the comparison is made. The second component is the disk after the run.
  The usage check, the spot check and the table by depth only print, enter neither
  the comparison nor \<^verbatim>\<open>issues\<close>, and are left out.
\<close>

definition verify_main :: "remote \<Rightarrow> nat \<Rightarrow> disk \<Rightarrow> (exn + report) option \<times> disk" where
  "verify_main remote fuel d =
     ((case hybrid_inventory_json d of
         None \<Rightarrow> Some (Inl FileNotFoundError)
       | Some Unparsable \<Rightarrow> Some (Inl JSONDecodeError)
       | Some (Parsed data) \<Rightarrow>
           (case inv_entries data of
              None \<Rightarrow> Some (Inl (KeyError ''entries''))
            | Some es \<Rightarrow>
                (case inv_summary data of
                   None \<Rightarrow> Some (Inl (KeyError ''summary''))
                 | Some sm \<Rightarrow>
                     (case list_root remote fuel of
                        None \<Rightarrow> None
                      | Some (Inl e) \<Rightarrow> Some (Inl e)
                      | Some (Inr (api_root_folders, api_root_files)) \<Rightarrow>
                          Some (Inr (root_set_check api_root_folders es)))))),
      d)"

text \<open>
  The verifier scenario: the live root has the folders \<^verbatim>\<open>/A\<close>, \<^verbatim>\<open>/B\<close> and \<^verbatim>\<open>/C\<close> on
  two pages; the inventory has the root folders \<^verbatim>\<open>/A\<close>, \<^verbatim>\<open>/B\<close> and \<^verbatim>\<open>/D\<close>.
\<close>

definition root_folder :: "string \<Rightarrow> entry" where
  "root_folder nm = \<lparr> entry_type = ''folder'', name = nm, path = CHR ''/'' # nm,
      path_lower = CHR ''/'' # lower nm, extension = None, size_bytes = 0, modified = None,
      content_hash = None, revision = None, dropbox_id = ''id:'' @ nm, folder_depth = 1,
      parent_folder = ''/'' \<rparr>"

definition verifier_remote :: remote where
  "verifier_remote req k =
     (case req of
        ListFolder p recursive \<Rightarrow>
          Returns \<lparr> pg_entries = [FolderMetadata ''A'' ''/A'' ''/a'' ''id:A'',
                       FileMetadata ''B.txt'' ''/B.txt'' ''/b.txt'' 2048 None None ''r2'' ''id:Bt''],
                     pg_cursor = ''r1'', pg_has_more = True \<rparr>
      | ListFolderContinue c \<Rightarrow>
          Returns \<lparr> pg_entries = [FolderMetadata ''B'' ''/B'' ''/b'' ''id:B'',
                       FolderMetadata ''C'' ''/C'' ''/c'' ''id:C''],
                     pg_cursor = ''r2'', pg_has_more = False \<rparr>)"

definition verifier_disk :: disk where
  "verifier_disk = empty_disk\<lparr>hybrid_inventory_json := Some (Parsed
       \<lparr> inv_summary = Some (hybrid_summary
           [root_folder ''A'', root_folder ''B'', root_folder ''D'', file_B] False 4),
         inv_entries = Some [root_folder ''A'', root_folder ''B'', root_folder ''D'', file_B] \<rparr>)\<rparr>"

section \<open>Writing a file in place\<close>

text \<open>
  The bytes on disk, by path. Every save of the two scripts is
  \<^verbatim>\<open>with open(path, 'w', ...) as f: json.dump(obj, f)\<close> (or the CSV writer): opening for
  writing creates the file or cuts it to length 0, and the text then reaches the file
  piece by piece, in order. The pieces are what the encoder hands to the file; they
  are a parameter of the model. No temporary file is written and nothing is renamed.
\<close>

datatype file_op = Truncate string | Append string string

fun apply_op :: "(string \<Rightarrow> string option) \<Rightarrow> file_op \<Rightarrow> (string \<Rightarrow> string option)" where
  "apply_op dsk (Truncate p) = dsk(p := Some [])"
| "apply_op dsk (Append p chunk) =
     dsk(p := Some ((case dsk p of None \<Rightarrow> [] | Some old \<Rightarrow> old) @ chunk))"

definition write_file :: "string \<Rightarrow> string list \<Rightarrow> file_op list" where
  "write_file p chunks = Truncate p # map (Append p) chunks"

definition run_ops :: "file_op list \<Rightarrow> (string \<Rightarrow> string option) \<Rightarrow> (string \<Rightarrow> string option)" where
  "run_ops ops dsk = foldl apply_op dsk ops"

text \<open>The disk when the process dies after \<open>n\<close> of the operations.\<close>

definition crash_after :: "nat \<Rightarrow> file_op list \<Rightarrow> (string \<Rightarrow> string option)
    \<Rightarrow> (string \<Rightarrow> string option)" where
  "crash_after n ops dsk = run_ops (take n ops) dsk"

text \<open>The paths of \<^verbatim>\<open>DropboxInventory\<close> and of \<^verbatim>\<open>HybridInventory\<close>.\<close>

definition CHECKPOINT_FILE :: string where
  "CHECKPOINT_FILE = ''inventory_output/checkpoint.json''"

definition INVENTORY_JSON :: string where
  "INVENTORY_JSON = ''inventory_output/inventory.json''"

definition INVENTORY_CSV :: string where
  "INVENTORY_CSV = ''inventory_output/inventory.csv''"

definition HYBRID_CHECKPOINT_FILE :: string where
  "HYBRID_CHECKPOINT_FILE = ''inventory_output_hybrid/checkpoint.json''"

definition HYBRID_INVENTORY_JSON :: string where
  "HYBRID_INVENTORY_JSON = ''inventory_output_hybrid/inventory.json''"

definition HYBRID_INVENTORY_CSV :: string where
  "HYBRID_INVENTORY_CSV = ''inventory_output_hybrid/inventory.csv''"

text \<open>
  The file operations of a save: the checkpoint, then the inventory JSON, then the CSV
  when there are entries (\<open>csv = None\<close> when there are none). This is
  \<^verbatim>\<open>_save_checkpoint(); _save_inventory()\<close> of \<^verbatim>\<open>DropboxInventory\<close> (the signal
  handler, the periodic save and the final save) and \<^verbatim>\<open>_save_all()\<close> of
  \<^verbatim>\<open>HybridInventory\<close>.
\<close>

definition save_ops :: "string \<Rightarrow> string \<Rightarrow> string \<Rightarrow> string list \<Rightarrow> string list
    \<Rightarrow> string list option \<Rightarrow> file_op list" where
  "save_ops ckp invp csvp ck_text inv_text csv =
     write_file ckp ck_text @ write_file invp inv_text @
     (case csv of None \<Rightarrow> [] | Some rows \<Rightarrow> write_file csvp rows)"

definition dbx_save_ops :: "string list \<Rightarrow> string list \<Rightarrow> string list option \<Rightarrow> file_op list" where
  "dbx_save_ops ck_text inv_text csv =
     save_ops CHECKPOINT_FILE INVENTORY_JSON INVENTORY_CSV ck_text inv_text csv"

definition save_all_ops :: "string list \<Rightarrow> string list \<Rightarrow> string list option \<Rightarrow> file_op list" where
  "save_all_ops ck_text inv_text csv =
     save_ops HYBRID_CHECKPOINT_FILE HYBRID_INVENTORY_JSON HYBRID_INVENTORY_CSV
       ck_text inv_text csv"

text \<open>
  The specification's discipline: after a crash, a file holds either the complete text
  it held before the save or the complete new text.
\<close>

definition old_or_new :: "string option \<Rightarrow> string list \<Rightarrow> string option \<Rightarrow> bool" where
  "old_or_new before chunks after = (after = before \<or> after = Some (concat chunks))"

text \<open>A disk with an earlier checkpoint, and the pieces of a new one.\<close>

definition disk_before :: "string \<Rightarrow> string option" where
  "disk_before = (\<lambda>p. None)(CHECKPOINT_FILE := Some ''{cursor: c0, has_more: true}'')"

definition new_checkpoint_chunks :: "string list" where
  "new_checkpoint_chunks = [''{cursor: c1,'', '' has_more: true}'']"


definition new_inventory_chunks :: "string list" where
  "new_inventory_chunks = [''{summary: {},'', '' entries: []}'']"

section \<open>Two runs that agree on their progress\<close>




























section \<open>Resuming a run\<close>



section \<open>The store of \<^verbatim>\<open>HybridInventory\<close>\<close>

lemma set_fst_dict_set: "fst ` set (dict_set k v d) = insert k (fst ` set d)"
proof (induction d)
  case Nil
  show ?case by simp
next
  case (Cons p d)
  obtain k' v' where p: "p = (k', v')" by (cases p)
  show ?case
  proof (cases "k' = k")
    case True
    then show ?thesis using p by auto
  next
    case False
    then show ?thesis using p Cons.IH by auto
  qed
qed

lemma add_entry_new:
  "\<not> dict_has (entries_by_path st) (path e) \<Longrightarrow>
   add_entry (Some e) st =
     (True, st\<lparr>h_entries := h_entries st @ [e],
               entries_by_path := dict_set (path e) e (entries_by_path st)\<rparr>)"
  by (simp add: add_entry_def)

lemma add_entry_present:
  "dict_has (entries_by_path st) (path e) \<Longrightarrow> add_entry (Some e) st = (False, st)"
  by (simp add: add_entry_def)

lemma store_ok_has: "store_ok st \<Longrightarrow> dict_has (entries_by_path st) p \<longleftrightarrow> p \<in> path ` set (h_entries st)"
  by (auto simp: store_ok_def dict_has_def)

lemma add_entry_store_ok: "store_ok st \<Longrightarrow> store_ok (snd (add_entry x st))"
  by (cases x) (auto simp: add_entry_def store_ok_def dict_has_def set_fst_dict_set)

lemma add_entry_twice:
  "add_entry (Some e) (snd (add_entry (Some e) st)) = (False, snd (add_entry (Some e) st))"
  by (auto simp: add_entry_def dict_has_def set_fst_dict_set)

lemma add_entry_times_once:
  "0 < n \<Longrightarrow> add_entry_times n e st = snd (add_entry (Some e) st)"
proof (induction n arbitrary: st)
  case 0
  then show ?case by simp
next
  case (Suc n)
  show ?case
  proof (cases n)
    case 0
    then show ?thesis by simp
  next
    case (Suc m)
    then have "add_entry_times n e (snd (add_entry (Some e) st))
        = snd (add_entry (Some e) (snd (add_entry (Some e) st)))"
      using Suc.IH by simp
    then show ?thesis by (simp add: add_entry_twice)
  qed
qed

lemma foldl_add_entry_store_ok:
  "store_ok st \<Longrightarrow> store_ok (foldl (\<lambda>s x. snd (add_entry x s)) st xs)"
  by (induction xs arbitrary: st) (auto simp: add_entry_store_ok)

lemma store_ok_init: "store_ok (hybrid_init d)"
  by (simp add: store_ok_def hybrid_init_def)

lemma add_entries_fields:
  "h_cursor (add_entries es st) = h_cursor st \<and> h_has_more (add_entries es st) = h_has_more st \<and>
   h_api_calls (add_entries es st) = h_api_calls st \<and> h_files (add_entries es st) = h_files st"
  unfolding add_entries_def
  by (induction es arbitrary: st) (auto simp: add_entry_def)

lemma add_entries_store:
  "h_entries st = h_entries st' \<Longrightarrow> entries_by_path st = entries_by_path st' \<Longrightarrow>
   h_entries (add_entries es st) = h_entries (add_entries es st') \<and>
   entries_by_path (add_entries es st) = entries_by_path (add_entries es st')"
  unfolding add_entries_def
proof (induction es arbitrary: st st')
  case Nil
  then show ?case by simp
next
  case (Cons e es)
  have "h_entries (snd (add_entry (Some e) st)) = h_entries (snd (add_entry (Some e) st'))"
    "entries_by_path (snd (add_entry (Some e) st)) = entries_by_path (snd (add_entry (Some e) st'))"
    using Cons.prems by (auto simp: add_entry_def)
  from Cons.IH [OF this] show ?case by simp
qed

lemma add_entries_distinct:
  "store_ok st \<Longrightarrow> distinct (map path es) \<Longrightarrow>
   path ` set es \<inter> path ` set (h_entries st) = {} \<Longrightarrow>
   h_entries (add_entries es st) = h_entries st @ es"
  unfolding add_entries_def
proof (induction es arbitrary: st)
  case Nil
  then show ?case by simp
next
  case (Cons e es)
  have n: "\<not> dict_has (entries_by_path st) (path e)"
    using Cons.prems store_ok_has [OF Cons.prems(1), of "path e"] by auto
  let ?st1 = "snd (add_entry (Some e) st)"
  have e1: "h_entries ?st1 = h_entries st @ [e]"
    using add_entry_new [OF n] by simp
  have ok: "store_ok ?st1" using add_entry_store_ok [OF Cons.prems(1)] .
  have d: "distinct (map path es)" using Cons.prems(2) by simp
  have i: "path ` set es \<inter> path ` set (h_entries ?st1) = {}"
    using Cons.prems(2,3) e1 by auto
  from Cons.IH [OF ok d i] e1 show ?case by simp
qed

lemma add_entries_subset:
  "set (h_entries (add_entries es st)) \<subseteq> set (h_entries st) \<union> set es"
  unfolding add_entries_def
proof (induction es arbitrary: st)
  case Nil
  show ?case by simp
next
  case (Cons e es)
  have "set (h_entries (snd (add_entry (Some e) st))) \<subseteq> set (h_entries st) \<union> {e}"
    by (auto simp: add_entry_def)
  then show ?case using Cons.IH [of "snd (add_entry (Some e) st)"] by auto
qed

lemma load_old_prefix_files:
  "h_files (snd (load_old_inventory (load_old_checkpoint st))) = h_files st"
  by (auto simp: load_old_inventory_def load_old_checkpoint_def add_entries_fields
      split: option.splits json_file.splits)

text \<open>
  C2. \<^verbatim>\<open>_add_entry\<close> on a store whose invariant holds (\<open>store_ok\<close>: it holds of the
  empty store and every insert keeps it). An entry whose path no entry has is appended
  and the result is \<^verbatim>\<open>True\<close>; an entry whose path is there already gives \<^verbatim>\<open>False\<close> and
  the same state, so every aggregate computed from it is the same; inserting an entry
  again right after inserting it changes nothing, and inserting it \<open>n\<close> times in a row
  is inserting it once; after any sequence of inserts (\<^verbatim>\<open>None\<close> included) the paths of
  the entries are pairwise different.
\<close>

theorem add_entry_idempotent:
  assumes "store_ok st"
  shows "(path e \<notin> path ` set (h_entries st) \<longrightarrow>
            (\<exists>st'. add_entry (Some e) st = (True, st') \<and> h_entries st' = h_entries st @ [e] \<and>
                   store_ok st')) \<and>
         (path e \<in> path ` set (h_entries st) \<longrightarrow> add_entry (Some e) st = (False, st)) \<and>
         add_entry (Some e) (snd (add_entry (Some e) st))
           = (False, snd (add_entry (Some e) st)) \<and>
         (0 < n \<longrightarrow> add_entry_times n e st = snd (add_entry (Some e) st)) \<and>
         store_ok (foldl (\<lambda>s x. snd (add_entry x s)) st xs) \<and>
         distinct (map path (h_entries (foldl (\<lambda>s x. snd (add_entry x s)) st xs)))"
proof -
  have a: "path e \<notin> path ` set (h_entries st) \<longrightarrow>
            (\<exists>st'. add_entry (Some e) st = (True, st') \<and> h_entries st' = h_entries st @ [e] \<and>
                   store_ok st')"
  proof
    assume "path e \<notin> path ` set (h_entries st)"
    then have n: "\<not> dict_has (entries_by_path st) (path e)"
      using store_ok_has [OF assms] by simp
    have "store_ok (snd (add_entry (Some e) st))"
      using add_entry_store_ok [OF assms] .
    then show "\<exists>st'. add_entry (Some e) st = (True, st') \<and> h_entries st' = h_entries st @ [e] \<and>
                   store_ok st'"
      using add_entry_new [OF n] by simp
  qed
  have b: "path e \<in> path ` set (h_entries st) \<longrightarrow> add_entry (Some e) st = (False, st)"
    using store_ok_has [OF assms] add_entry_present by blast
  have c: "0 < n \<longrightarrow> add_entry_times n e st = snd (add_entry (Some e) st)"
    using add_entry_times_once by blast
  have d: "store_ok (foldl (\<lambda>s x. snd (add_entry x s)) st xs)"
    using foldl_add_entry_store_ok [OF assms] .
  then have "distinct (map path (h_entries (foldl (\<lambda>s x. snd (add_entry x s)) st xs)))"
    by (simp add: store_ok_def)
  then show ?thesis using a b c d add_entry_twice by blast
qed

theorem add_entry_idempotent_witness:
  "store_ok (hybrid_init empty_disk) \<and>
   fst (add_entry (Some folder_A) (hybrid_init empty_disk)) \<and>
   h_entries (snd (add_entry (Some folder_A) (hybrid_init empty_disk))) = [folder_A] \<and>
   add_entry (Some file_A) (snd (add_entry (Some folder_A) (hybrid_init empty_disk)))
     = (False, snd (add_entry (Some folder_A) (hybrid_init empty_disk))) \<and>
   add_entry_times 3 folder_A (hybrid_init empty_disk)
     = snd (add_entry (Some folder_A) (hybrid_init empty_disk)) \<and>
   h_entries (foldl (\<lambda>s x. snd (add_entry x s)) (hybrid_init empty_disk)
      [Some folder_A, None, Some file_A, Some folder_A]) = [folder_A]"
proof -
  let ?s0 = "hybrid_init empty_disk"
  let ?s1 = "snd (add_entry (Some folder_A) ?s0)"
  have ok0: "store_ok ?s0" by (rule store_ok_init)
  have n0: "path folder_A \<notin> path ` set (h_entries ?s0)"
    by (simp add: hybrid_init_def)
  from add_entry_idempotent [OF ok0, of folder_A 3 "[]"] n0
  have a: "fst (add_entry (Some folder_A) ?s0)"
    and b: "h_entries ?s1 = h_entries ?s0 @ [folder_A]"
    and ok1: "store_ok ?s1"
    and t: "add_entry_times 3 folder_A ?s0 = ?s1"
    by auto
  have e1: "h_entries ?s1 = [folder_A]"
    using b by (simp add: hybrid_init_def)
  have n1: "path file_A \<in> path ` set (h_entries ?s1)"
    using e1 by (simp add: file_A_def folder_A_def)
  from add_entry_idempotent [OF ok1, of file_A 1 "[]"] n1
  have c: "add_entry (Some file_A) ?s1 = (False, ?s1)" by blast
  have d: "h_entries (foldl (\<lambda>s x. snd (add_entry x s)) ?s0
      [Some folder_A, None, Some file_A, Some folder_A]) = [folder_A]"
    by (simp add: add_entry_def dict_has_def hybrid_init_def folder_A_def file_A_def)
  show ?thesis using ok0 a e1 c t d by simp
qed

text \<open>
  C3, as the code has it. Neither loader validates a checkpoint. A checkpoint whose
  \<^verbatim>\<open>has_more\<close> is false and whose cursor is a string is loaded like any other:
  \<^verbatim>\<open>DropboxInventory._load_checkpoint\<close> returns \<^verbatim>\<open>True\<close> and adopts its cursor, its
  \<^verbatim>\<open>has_more\<close> and its call counter (when the inventory file beside it is absent or
  parses), and \<^verbatim>\<open>HybridInventory._load_old_progress\<close> reports progress and adopts the
  cursor and \<^verbatim>\<open>has_more\<close> of such an old checkpoint (when no checkpoint of its own
  overrides it).
\<close>

theorem load_accepts_contradictory_checkpoint:
  assumes "ck_has_more ck = Some False" and "ck_cursor ck = Some c"
    and "old_checkpoint (files st) = Some (Parsed ck)"
    and "old_inventory_json (files st) \<noteq> Some Unparsable"
    and "old_checkpoint (h_files hst) = Some (Parsed ck)"
    and "hybrid_checkpoint (h_files hst) = None"
  shows "(\<exists>st'. load_checkpoint st = (Inr True, st') \<and> cursor st' = Some c \<and>
            \<not> has_more st' \<and> api_calls st' = get_or (ck_api_calls ck) 0) \<and>
         (\<exists>hst'. load_old_progress hst = (True, hst') \<and> h_cursor hst' = Some c \<and>
            \<not> h_has_more hst')"
proof -
  have a: "\<exists>st'. load_checkpoint st = (Inr True, st') \<and> cursor st' = Some c \<and>
            \<not> has_more st' \<and> api_calls st' = get_or (ck_api_calls ck) 0"
    using assms(1-4)
    by (auto simp: load_checkpoint_def adopt_checkpoint_def get_or_def
        split: option.splits json_file.splits)
  have f: "h_files (snd (load_old_inventory (load_old_checkpoint hst))) = h_files hst"
    by (rule load_old_prefix_files)
  have l: "load_old_progress hst = load_old_inventory (load_old_checkpoint hst)"
    using f assms(6) by (simp add: load_old_progress_def load_own_progress_def)
  have "fst (load_old_inventory (load_old_checkpoint hst)) \<and>
        h_cursor (snd (load_old_inventory (load_old_checkpoint hst))) = Some c \<and>
        \<not> h_has_more (snd (load_old_inventory (load_old_checkpoint hst)))"
    using assms(1,2,5)
    by (auto simp: load_old_inventory_def load_old_checkpoint_def add_entries_fields get_or_def
        split: option.splits json_file.splits)
  then have b: "\<exists>hst'. load_old_progress hst = (True, hst') \<and> h_cursor hst' = Some c \<and>
            \<not> h_has_more hst'"
    using l by (cases "load_old_inventory (load_old_checkpoint hst)") auto
  show ?thesis using a b by blast
qed

theorem load_accepts_contradictory_checkpoint_witness:
  "(\<exists>st'. load_checkpoint (dbx_init contradictory_disk) = (Inr True, st') \<and>
      cursor st' = Some ''c1'' \<and> \<not> has_more st' \<and> api_calls st' = 3) \<and>
   (\<exists>hst'. load_old_progress (hybrid_init contradictory_disk) = (True, hst') \<and>
      h_cursor hst' = Some ''c1'' \<and> \<not> h_has_more hst')"
proof -
  have 1: "ck_has_more contradictory_checkpoint = Some False"
    and 2: "ck_cursor contradictory_checkpoint = Some ''c1''"
    by (simp_all add: contradictory_checkpoint_def)
  have 3: "old_checkpoint (files (dbx_init contradictory_disk)) = Some (Parsed contradictory_checkpoint)"
    and 4: "old_inventory_json (files (dbx_init contradictory_disk)) \<noteq> Some Unparsable"
    by (simp_all add: dbx_init_def contradictory_disk_def)
  have 5: "old_checkpoint (h_files (hybrid_init contradictory_disk))
      = Some (Parsed contradictory_checkpoint)"
    and 6: "hybrid_checkpoint (h_files (hybrid_init contradictory_disk)) = None"
    by (simp_all add: hybrid_init_def contradictory_disk_def)
  have "get_or (ck_api_calls contradictory_checkpoint) 0 = 3"
    by (simp add: contradictory_checkpoint_def get_or_def)
  with load_accepts_contradictory_checkpoint [OF 1 2 3 4 5 6]
  show ?thesis by simp
qed

text \<open>
  C3 as the specification words it fails on the code: the checkpoint with
  \<^verbatim>\<open>has_more = false\<close> and the cursor \<^verbatim>\<open>c1\<close> is not rejected. The load returns
  \<^verbatim>\<open>True\<close> with the checkpoint's cursor and the inventory's entries, and the resuming
  run uses it: it makes no listing call, keeps the three calls of the checkpoint and
  finishes with the loaded entries.
\<close>

theorem load_rejects_contradiction_counterexample:
  "ck_has_more contradictory_checkpoint = Some False \<and>
   ck_cursor contradictory_checkpoint = Some ''c1'' \<and>
   old_checkpoint contradictory_disk = Some (Parsed contradictory_checkpoint) \<and>
   fst (load_checkpoint (dbx_init contradictory_disk)) = Inr True \<and>
   cursor (snd (load_checkpoint (dbx_init contradictory_disk))) = Some ''c1'' \<and>
   \<not> has_more (snd (load_checkpoint (dbx_init contradictory_disk))) \<and>
   entries (snd (load_checkpoint (dbx_init contradictory_disk))) = [folder_A] \<and>
   fst (run throttled_remote never_due 0 None True (dbx_init contradictory_disk)) = Finished \<and>
   api_calls (snd (run throttled_remote never_due 0 None True (dbx_init contradictory_disk))) = 3 \<and>
   entries (snd (run throttled_remote never_due 0 None True (dbx_init contradictory_disk)))
     = [folder_A]"
  by (simp add: contradictory_checkpoint_def contradictory_disk_def load_checkpoint_def
      adopt_checkpoint_def dbx_init_def get_or_def run_def truthy_def final_save_def
      save_inventory_def save_checkpoint_def Let_def)

section \<open>Files written in place\<close>

text \<open>
  What a sequence of file operations leaves at a path, and what is there when the
  process dies after some of them.
\<close>


lemma run_ops_Nil: "run_ops [] dsk = dsk"
  by (simp add: run_ops_def)

lemma run_ops_Cons: "run_ops (x # xs) dsk = run_ops xs (apply_op dsk x)"
  by (simp add: run_ops_def)

lemma run_ops_append: "run_ops (xs @ ys) dsk = run_ops ys (run_ops xs dsk)"
  by (simp add: run_ops_def)

lemma run_appends_same:
  "dsk p = Some t \<Longrightarrow> run_ops (map (Append p) cs) dsk p = Some (t @ concat cs)"
proof (induction cs arbitrary: dsk t)
  case Nil
  then show ?case by (simp add: run_ops_Nil)
next
  case (Cons c cs)
  have "apply_op dsk (Append p c) p = Some (t @ c)" using Cons.prems by simp
  then have "run_ops (map (Append p) cs) (apply_op dsk (Append p c)) p = Some ((t @ c) @ concat cs)"
    by (rule Cons.IH)
  then show ?case by (simp add: run_ops_Cons)
qed

lemma run_appends_other:
  "q \<noteq> p \<Longrightarrow> run_ops (map (Append p) cs) dsk q = dsk q"
proof (induction cs arbitrary: dsk)
  case Nil
  then show ?case by (simp add: run_ops_Nil)
next
  case (Cons c cs)
  have "run_ops (map (Append p) cs) (apply_op dsk (Append p c)) q = apply_op dsk (Append p c) q"
    using Cons.prems by (rule Cons.IH)
  moreover have "apply_op dsk (Append p c) q = dsk q" using Cons.prems by simp
  ultimately show ?case by (simp add: run_ops_Cons)
qed

lemma take_write_file:
  "take (Suc m) (write_file p cs) = write_file p (take m cs)"
  by (simp add: write_file_def take_map)

lemma run_write_file_same: "run_ops (write_file p cs) dsk p = Some (concat cs)"
proof -
  have "apply_op dsk (Truncate p) p = Some []" by simp
  then have "run_ops (map (Append p) cs) (apply_op dsk (Truncate p)) p = Some ([] @ concat cs)"
    by (rule run_appends_same)
  then show ?thesis by (simp add: write_file_def run_ops_Cons)
qed

lemma run_write_file_other:
  assumes "q \<noteq> p"
  shows "run_ops (write_file p cs) dsk q = dsk q"
proof -
  have "run_ops (map (Append p) cs) (apply_op dsk (Truncate p)) q = apply_op dsk (Truncate p) q"
    using assms by (rule run_appends_other)
  then show ?thesis using assms by (simp add: write_file_def run_ops_Cons)
qed

lemma crash_write_file_same:
  "crash_after n (write_file p cs) dsk p
     = (if n = 0 then dsk p else Some (concat (take (n - 1) cs)))"
proof (cases n)
  case 0
  then show ?thesis by (simp add: crash_after_def run_ops_Nil)
next
  case (Suc m)
  then show ?thesis
    by (simp add: crash_after_def take_write_file run_write_file_same)
qed

lemma crash_write_file_other:
  assumes "q \<noteq> p"
  shows "crash_after n (write_file p cs) dsk q = dsk q"
proof (cases n)
  case 0
  then show ?thesis by (simp add: crash_after_def run_ops_Nil)
next
  case (Suc m)
  have "run_ops (write_file p (take m cs)) dsk q = dsk q"
    using assms by (rule run_write_file_other)
  then show ?thesis using Suc by (simp add: crash_after_def take_write_file)
qed

lemma crash_after_append:
  "crash_after n (xs @ ys) dsk = crash_after (n - length xs) ys (crash_after n xs dsk)"
  by (simp add: crash_after_def run_ops_append)

lemma length_write_file: "length (write_file p cs) = Suc (length cs)"
  by (simp add: write_file_def)

lemma concat_take_prefix: "concat (take n cs) = take (length (concat (take n cs))) (concat cs)"
proof -
  have "concat cs = concat (take n cs) @ concat (drop n cs)"
    by (metis append_take_drop_id concat_append)
  then show ?thesis by (metis append_eq_conv_conj)
qed


lemma crash_past_write_file:
  "length cs < n \<Longrightarrow> crash_after n (write_file p cs) dsk p = Some (concat cs)"
  by (simp add: crash_write_file_same)

text \<open>
  C4, as the code has it. A save writes its files in place: the checkpoint, then the
  inventory, then the CSV, each opened for writing (which empties it) and then filled
  piece by piece; no temporary file is written and nothing is renamed. When the
  three paths differ, the disk after \<open>n\<close> of the save's operations holds, in the
  checkpoint file, what was there before (\<open>n = 0\<close>) or the first \<open>n - 1\<close> pieces of the
  new text, and in the inventory file what was there before (as long as the checkpoint
  is not yet complete) or the pieces of the new inventory written so far. Each of
  these is a prefix of the new text (\<open>concat_take_prefix\<close>), possibly empty. A save
  that runs to its end leaves the complete new text in both files.
\<close>

theorem save_writes_in_place:
  assumes "ckp \<noteq> invp" and "ckp \<noteq> csvp" and "invp \<noteq> csvp"
  shows "crash_after n (save_ops ckp invp csvp ck_text inv_text csv) dsk ckp
           = (if n = 0 then dsk ckp else Some (concat (take (n - 1) ck_text))) \<and>
         crash_after n (save_ops ckp invp csvp ck_text inv_text csv) dsk invp
           = (if n \<le> Suc (length ck_text) then dsk invp
              else Some (concat (take (n - length ck_text - 2) inv_text))) \<and>
         run_ops (save_ops ckp invp csvp ck_text inv_text csv) dsk ckp = Some (concat ck_text) \<and>
         run_ops (save_ops ckp invp csvp ck_text inv_text csv) dsk invp = Some (concat inv_text)"
proof -
  let ?rest = "case csv of None \<Rightarrow> [] | Some rows \<Rightarrow> write_file csvp rows"
  let ?d1 = "crash_after n (write_file ckp ck_text) dsk"
  let ?m = "n - Suc (length ck_text)"
  let ?d2 = "crash_after ?m (write_file invp inv_text) ?d1"
  let ?k = "?m - Suc (length inv_text)"
  have split: "crash_after n (save_ops ckp invp csvp ck_text inv_text csv) dsk
      = crash_after ?k ?rest ?d2"
    by (simp add: save_ops_def crash_after_append length_write_file)
  have rest: "crash_after j ?rest d q = d q" if "q \<noteq> csvp" for j d q
  proof (cases csv)
    case None
    then show ?thesis by (simp add: crash_after_def run_ops_Nil)
  next
    case (Some rows)
    then show ?thesis using that by (simp add: crash_write_file_other)
  qed
  have c1: "?d2 ckp = ?d1 ckp"
    using assms(1) by (rule crash_write_file_other)
  have a: "crash_after n (save_ops ckp invp csvp ck_text inv_text csv) dsk ckp
           = (if n = 0 then dsk ckp else Some (concat (take (n - 1) ck_text)))"
    using assms(2) by (simp add: split rest c1 crash_write_file_same)
  have i1: "?d1 invp = dsk invp"
    using assms(1) by (simp add: crash_write_file_other)
  have b: "crash_after n (save_ops ckp invp csvp ck_text inv_text csv) dsk invp
           = (if n \<le> Suc (length ck_text) then dsk invp
              else Some (concat (take (n - length ck_text - 2) inv_text)))"
    using assms(3) by (simp add: split rest crash_write_file_same i1)
  let ?all = "length (save_ops ckp invp csvp ck_text inv_text csv)"
  have full: "run_ops (save_ops ckp invp csvp ck_text inv_text csv) dsk
      = crash_after ?all (save_ops ckp invp csvp ck_text inv_text csv) dsk"
    by (simp add: crash_after_def)
  have len: "Suc (length ck_text) + Suc (length inv_text) \<le> ?all"
    by (simp add: save_ops_def length_write_file)
  have c: "run_ops (save_ops ckp invp csvp ck_text inv_text csv) dsk ckp = Some (concat ck_text)"
  proof -
    have "crash_after ?all (save_ops ckp invp csvp ck_text inv_text csv) dsk ckp
        = Some (concat ck_text)"
      using assms len
      by (simp add: save_ops_def crash_after_append length_write_file rest
          crash_write_file_other crash_write_file_same split: option.splits)
    then show ?thesis using full by simp
  qed
  have d: "run_ops (save_ops ckp invp csvp ck_text inv_text csv) dsk invp = Some (concat inv_text)"
  proof -
    have "crash_after ?all (save_ops ckp invp csvp ck_text inv_text csv) dsk invp
        = Some (concat inv_text)"
      using assms len
      by (simp add: save_ops_def crash_after_append length_write_file rest
          crash_write_file_other crash_write_file_same split: option.splits)
    then show ?thesis using full by simp
  qed
  show ?thesis using a b c d by simp
qed

theorem save_writes_in_place_witness:
  "CHECKPOINT_FILE \<noteq> INVENTORY_JSON \<and> CHECKPOINT_FILE \<noteq> INVENTORY_CSV \<and>
   INVENTORY_JSON \<noteq> INVENTORY_CSV \<and>
   crash_after 5 (dbx_save_ops new_checkpoint_chunks new_inventory_chunks None) disk_before
       CHECKPOINT_FILE = Some ''{cursor: c1, has_more: true}'' \<and>
   crash_after 5 (dbx_save_ops new_checkpoint_chunks new_inventory_chunks None) disk_before
       INVENTORY_JSON = Some ''{summary: {},'' \<and>
   crash_after 2 (dbx_save_ops new_checkpoint_chunks new_inventory_chunks None) disk_before
       INVENTORY_JSON = None \<and>
   run_ops (dbx_save_ops new_checkpoint_chunks new_inventory_chunks None) disk_before
       CHECKPOINT_FILE = Some ''{cursor: c1, has_more: true}'' \<and>
   run_ops (dbx_save_ops new_checkpoint_chunks new_inventory_chunks None) disk_before
       INVENTORY_JSON = Some ''{summary: {}, entries: []}''"
proof -
  have 1: "CHECKPOINT_FILE \<noteq> INVENTORY_JSON" and 2: "CHECKPOINT_FILE \<noteq> INVENTORY_CSV"
    and 3: "INVENTORY_JSON \<noteq> INVENTORY_CSV"
    by (simp_all add: CHECKPOINT_FILE_def INVENTORY_JSON_def INVENTORY_CSV_def)
  have l: "length new_checkpoint_chunks = 2"
    and c: "concat new_checkpoint_chunks = ''{cursor: c1, has_more: true}''"
    and t: "take 4 new_checkpoint_chunks = new_checkpoint_chunks"
    and i: "concat new_inventory_chunks = ''{summary: {}, entries: []}''"
    and j: "concat (take (Suc 0) new_inventory_chunks) = ''{summary: {},''"
    and d: "disk_before INVENTORY_JSON = None"
    using 1 by (simp_all add: new_checkpoint_chunks_def new_inventory_chunks_def disk_before_def)
  note five = save_writes_in_place [OF 1 2 3, of 5 new_checkpoint_chunks new_inventory_chunks
      None disk_before]
  note two = save_writes_in_place [OF 1 2 3, of 2 new_checkpoint_chunks new_inventory_chunks
      None disk_before]
  show ?thesis
    using five two 1 2 3 by (simp add: dbx_save_ops_def l c t i j d)
qed

text \<open>
  C4 as the specification words it fails on the code: a process that dies after the
  checkpoint file is opened leaves it empty, and one that dies after the first piece is
  written leaves that piece alone. The file then holds neither the complete text of the
  earlier checkpoint nor the complete new one, in \<^verbatim>\<open>DropboxInventory\<close> and in
  \<^verbatim>\<open>HybridInventory\<close> alike; and a checkpoint file that is not JSON makes the next
  \<^verbatim>\<open>_load_checkpoint\<close> raise.
\<close>

theorem save_atomicity_counterexample:
  "disk_before CHECKPOINT_FILE = Some ''{cursor: c0, has_more: true}'' \<and>
   crash_after 1 (dbx_save_ops new_checkpoint_chunks new_inventory_chunks None) disk_before
       CHECKPOINT_FILE = Some [] \<and>
   crash_after 2 (dbx_save_ops new_checkpoint_chunks new_inventory_chunks None) disk_before
       CHECKPOINT_FILE = Some ''{cursor: c1,'' \<and>
   \<not> old_or_new (disk_before CHECKPOINT_FILE) new_checkpoint_chunks
       (crash_after 2 (dbx_save_ops new_checkpoint_chunks new_inventory_chunks None) disk_before
          CHECKPOINT_FILE) \<and>
   crash_after 2 (save_all_ops new_checkpoint_chunks new_inventory_chunks None) disk_before
       HYBRID_CHECKPOINT_FILE = Some ''{cursor: c1,'' \<and>
   \<not> old_or_new (disk_before HYBRID_CHECKPOINT_FILE) new_checkpoint_chunks
       (crash_after 2 (save_all_ops new_checkpoint_chunks new_inventory_chunks None) disk_before
          HYBRID_CHECKPOINT_FILE) \<and>
   fst (load_checkpoint (dbx_init (empty_disk\<lparr>old_checkpoint := Some Unparsable\<rparr>)))
     = Inl JSONDecodeError"
  by (simp add: disk_before_def new_checkpoint_chunks_def new_inventory_chunks_def
      dbx_save_ops_def save_all_ops_def save_ops_def write_file_def crash_after_def run_ops_def
      old_or_new_def CHECKPOINT_FILE_def HYBRID_CHECKPOINT_FILE_def load_checkpoint_def
      dbx_init_def empty_disk_def)

section \<open>The aggregates of the summary\<close>

lemma foldl_add_int: "foldl (+) a xs = a + sum_list xs" for a :: int
  by (induction xs arbitrary: a) auto

lemma py_sum_sum_list: "py_sum xs = sum_list xs"
  by (simp add: py_sum_def foldl_add_int)

lemma sum_list_files_only:
  "sum_list (map size_bytes (files_only es))
     = (\<Sum>e\<leftarrow>es. if entry_type e = ''file'' then size_bytes e else 0)"
  by (induction es) (auto simp: files_only_def)

lemma length_files_only:
  "int (length es) - int (length (files_only es))
     = int (length (filter (\<lambda>e. entry_type e \<noteq> ''file'') es))"
  by (induction es) (auto simp: files_only_def)

text \<open>
  C5. For every list of entries, the summary that \<^verbatim>\<open>_save_inventory\<close> and \<^verbatim>\<open>_save_all\<close>
  compute has \<^verbatim>\<open>total_size_bytes\<close> equal to the sum of \<^verbatim>\<open>size_bytes\<close> over exactly the
  entries whose type is \<^verbatim>\<open>file\<close>, \<^verbatim>\<open>total_files\<close> the number of these entries,
  \<^verbatim>\<open>total_folders\<close> the number of the others, and the two counts add up to
  \<^verbatim>\<open>total_entries\<close>. The summary written at a save is this function of the entries of
  that moment (with the \<^verbatim>\<open>has_more\<close> flag and the call counter); nothing of an earlier
  summary enters it.
\<close>

theorem summary_aggregates:
  "total_size_bytes (dbx_summary es hm calls)
     = (\<Sum>e\<leftarrow>es. if entry_type e = ''file'' then size_bytes e else 0) \<and>
   total_files (dbx_summary es hm calls) = int (length (filter (\<lambda>e. entry_type e = ''file'') es)) \<and>
   total_folders (dbx_summary es hm calls)
     = int (length (filter (\<lambda>e. entry_type e \<noteq> ''file'') es)) \<and>
   total_entries (dbx_summary es hm calls) = int (length es) \<and>
   total_folders (dbx_summary es hm calls) + total_files (dbx_summary es hm calls)
     = total_entries (dbx_summary es hm calls) \<and>
   total_size_bytes (hybrid_summary es hm calls)
     = (\<Sum>e\<leftarrow>es. if entry_type e = ''file'' then size_bytes e else 0) \<and>
   total_files (hybrid_summary es hm calls)
     = int (length (filter (\<lambda>e. entry_type e = ''file'') es)) \<and>
   total_folders (hybrid_summary es hm calls)
     = int (length (filter (\<lambda>e. entry_type e \<noteq> ''file'') es)) \<and>
   total_folders (hybrid_summary es hm calls) + total_files (hybrid_summary es hm calls)
     = total_entries (hybrid_summary es hm calls) \<and>
   old_inventory_json (files (save_inventory st))
     = Some (Parsed \<lparr> inv_summary = Some (dbx_summary (entries st) (has_more st) (api_calls st)),
                      inv_entries = Some (entries st) \<rparr>) \<and>
   hybrid_inventory_json (h_files (save_all hst))
     = Some (Parsed \<lparr> inv_summary =
                        Some (hybrid_summary (h_entries hst) (h_has_more hst) (h_api_calls hst)),
                      inv_entries = Some (h_entries hst) \<rparr>)"
proof -
  have a: "py_sum (map size_bytes (files_only es))
      = (\<Sum>e\<leftarrow>es. if entry_type e = ''file'' then size_bytes e else 0)"
    by (simp add: py_sum_sum_list sum_list_files_only)
  have b: "int (length (files_only es)) = int (length (filter (\<lambda>e. entry_type e = ''file'') es))"
    by (simp add: files_only_def)
  note c = length_files_only [of es]
  show ?thesis
    using a b c
    by (simp add: dbx_summary_def hybrid_summary_def Let_def save_inventory_def save_all_def)
qed

theorem summary_aggregates_witness:
  "total_size_bytes (dbx_summary [folder_A, file_A, file_B] False 2) = 2055 \<and>
   total_files (dbx_summary [folder_A, file_A, file_B] False 2) = 2 \<and>
   total_folders (dbx_summary [folder_A, file_A, file_B] False 2) = 1 \<and>
   total_entries (dbx_summary [folder_A, file_A, file_B] False 2) = 3 \<and>
   total_size_bytes (hybrid_summary [folder_A, file_A, file_B] False 2) = 2055"
  using summary_aggregates [of "[folder_A, file_A, file_B]" False 2]
  by (simp add: folder_A_def file_A_def file_B_def)

section \<open>The retry policy\<close>

lemma retry_wait_permanent: "permanent e \<Longrightarrow> retry_wait e a = None"
  by (cases e) (auto simp: permanent_def)

lemma retry_wait_retryable: "retryable e \<Longrightarrow> \<exists>w. retry_wait e a = Some w"
  by (cases e) (auto simp: retryable_def)

lemma api_call_from_first_permanent:
  assumes "k < left"
    and "\<forall>j<k. \<exists>x. func (a + j) = Raises x \<and> retryable x"
    and "func (a + k) = Raises e" and "permanent e"
  shows "\<exists>sl. api_call_from left a func msg (calls, sl0)
            = (Inl e, calls + int k + 1, sl0 @ sl) \<and> length sl = k"
  using assms
proof (induction k arbitrary: left a calls sl0)
  case 0
  then obtain l where l: "left = Suc l" by (cases left) auto
  show ?case
    using 0 l by (simp add: retry_wait_permanent)
next
  case (Suc k)
  then obtain l where l: "left = Suc l" by (cases left) auto
  from Suc.prems(2) obtain x where x: "func a = Raises x" "retryable x"
    by fastforce
  then obtain w where w: "retry_wait x a = Some w"
    using retry_wait_retryable by blast
  have 1: "k < l" using Suc.prems(1) l by simp
  have 2: "\<forall>j<k. \<exists>x. func (Suc a + j) = Raises x \<and> retryable x"
  proof (intro allI impI)
    fix j assume "j < k"
    then have "Suc j < Suc k" by simp
    with Suc.prems(2) have "\<exists>x. func (a + Suc j) = Raises x \<and> retryable x" by blast
    then show "\<exists>x. func (Suc a + j) = Raises x \<and> retryable x" by simp
  qed
  have 3: "func (Suc a + k) = Raises e" using Suc.prems(3) by simp
  from Suc.IH [OF 1 2 3 Suc.prems(4), of "calls + 1" "sl0 @ [w]"]
  obtain sl where "api_call_from l (Suc a) func msg (calls + 1, sl0 @ [w])
      = (Inl e, calls + 1 + int k + 1, (sl0 @ [w]) @ sl)" and "length sl = k"
    by blast
  then have "api_call_from left a func msg (calls, sl0)
      = (Inl e, calls + int (Suc k) + 1, sl0 @ (w # sl)) \<and> length (w # sl) = Suc k"
    using l x w by simp
  then show ?case by blast
qed

text \<open>
  C6. For every operation and every permanent error (an \<^verbatim>\<open>ApiError\<close>, or an exception
  that no \<^verbatim>\<open>except\<close> clause names): when the first attempt raises it, \<^verbatim>\<open>_api_call\<close>
  ends with that error after one counted attempt and no sleep, whatever the later
  attempts would have done, in both classes; and when the first \<open>k\<close> attempts fail with
  retryable errors and attempt \<open>k\<close>, still within the budget, raises the permanent
  error, \<^verbatim>\<open>_api_call\<close> ends with it at once, after \<open>k + 1\<close> counted attempts and only
  the \<open>k\<close> sleeps of the retryable failures.
\<close>

theorem permanent_error_propagates:
  assumes "permanent e"
  shows "(func 0 = Raises e \<longrightarrow>
            api_call func msg (calls, sl0) = (Inl e, calls + 1, sl0) \<and>
            dbx_api_call func description st
              = (Inl e, st\<lparr>api_calls := api_calls st + 1, slept := slept st\<rparr>) \<and>
            hybrid_api_call func hst
              = (Inl e, hst\<lparr>h_api_calls := h_api_calls hst + 1, h_slept := h_slept hst\<rparr>)) \<and>
         (k < max_retries \<and> (\<forall>j<k. \<exists>x. func j = Raises x \<and> retryable x) \<and> func k = Raises e \<longrightarrow>
            (\<exists>sl. api_call func msg (calls, sl0) = (Inl e, calls + int k + 1, sl0 @ sl) \<and>
                  length sl = k))"
proof -
  have a: "func 0 = Raises e \<longrightarrow> api_call func msg c = (Inl e, fst c + 1, snd c)" for msg c
  proof
    assume f: "func 0 = Raises e"
    from api_call_from_first_permanent [of 0 max_retries func 0 e msg "fst c" "snd c"] f assms
    show "api_call func msg c = (Inl e, fst c + 1, snd c)"
      by (simp add: api_call_def max_retries_def)
  qed
  have b: "k < max_retries \<and> (\<forall>j<k. \<exists>x. func j = Raises x \<and> retryable x) \<and> func k = Raises e \<longrightarrow>
            (\<exists>sl. api_call func msg (calls, sl0) = (Inl e, calls + int k + 1, sl0 @ sl) \<and>
                  length sl = k)"
    using api_call_from_first_permanent [of k max_retries func 0 e msg calls sl0] assms
    by (simp add: api_call_def)
  show ?thesis
    using a b by (simp add: dbx_api_call_def hybrid_api_call_def)
qed

theorem permanent_error_propagates_witness:
  "permanent (ApiError ''path/not_found'') \<and> permanent (OtherHttpError ''AuthError'') \<and>
   api_call (scripted [] (Raises (ApiError ''path/not_found'') :: page outcome)) ''m'' (0, [])
     = (Inl (ApiError ''path/not_found''), 1, []) \<and>
   api_call (scripted [Raises (RateLimitError (Some 3)), Raises InternalServerError]
               (Raises (OtherHttpError ''AuthError'') :: page outcome)) ''m'' (0, [])
     = (Inl (OtherHttpError ''AuthError''), 3, [3, 2])"
proof -
  let ?f = "scripted [] (Raises (ApiError ''path/not_found'') :: page outcome)"
  let ?g = "scripted [Raises (RateLimitError (Some 3)), Raises InternalServerError]
               (Raises (OtherHttpError ''AuthError'') :: page outcome)"
  have p: "permanent (ApiError ''path/not_found'')" and q: "permanent (OtherHttpError ''AuthError'')"
    by (simp_all add: permanent_def)
  have f0: "?f 0 = Raises (ApiError ''path/not_found'')"
    by (simp add: scripted_def)
  from permanent_error_propagates [OF p, of ?f "''m''" 0 "[]"] f0
  have a: "api_call ?f ''m'' (0, []) = (Inl (ApiError ''path/not_found''), 1, [])"
    by simp
  have g: "(2::nat) < max_retries \<and> (\<forall>j<2. \<exists>x. ?g j = Raises x \<and> retryable x) \<and>
      ?g 2 = Raises (OtherHttpError ''AuthError'')"
    by (auto simp: max_retries_def scripted_def retryable_def less_Suc_eq numeral_2_eq_2)
  have "\<exists>sl. api_call ?g ''m'' (0, []) = (Inl (OtherHttpError ''AuthError''), 0 + int 2 + 1, [] @ sl) \<and>
      length sl = 2"
    using permanent_error_propagates [OF q, of ?g "''m''" 0 "[]" _ _ _ 2] g by blast
  then obtain sl where "api_call ?g ''m'' (0, []) = (Inl (OtherHttpError ''AuthError''), 3, sl)"
    by auto
  moreover have "snd (snd (api_call ?g ''m'' (0, []))) = [3, 2]"
    by code_simp
  ultimately have b: "api_call ?g ''m'' (0, []) = (Inl (OtherHttpError ''AuthError''), 3, [3, 2])"
    by simp
  show ?thesis using p q a b by simp
qed

section \<open>The retry budget\<close>

text \<open>
  \<^verbatim>\<open>_api_call\<close> invokes the operation at most \<open>max_retries = 5\<close> times, and when every
  one of the five attempts raises a rate-limit or a server error it raises the
  \<^verbatim>\<open>RuntimeError\<close> after five sleeps.
\<close>

lemma api_call_from_exhausted:
  assumes "\<forall>j<left. \<exists>x. func (a + j) = Raises x \<and> retryable x"
  shows "\<exists>sl. api_call_from left a func msg (calls, sl0)
            = (Inl (RuntimeError msg), calls + int left, sl0 @ sl) \<and> length sl = left"
  using assms
proof (induction left arbitrary: a calls sl0)
  case 0
  then show ?case by simp
next
  case (Suc left)
  from Suc.prems have "\<exists>x. func (a + 0) = Raises x \<and> retryable x" by blast
  then obtain x where x: "func a = Raises x" and r: "retryable x" by auto
  from retry_wait_retryable [OF r] obtain w where w: "retry_wait x a = Some w" by blast
  have "\<forall>j<left. \<exists>y. func (Suc a + j) = Raises y \<and> retryable y"
  proof (intro allI impI)
    fix j assume "j < left"
    then have "Suc j < Suc left" by simp
    with Suc.prems have "\<exists>y. func (a + Suc j) = Raises y \<and> retryable y" by blast
    then show "\<exists>y. func (Suc a + j) = Raises y \<and> retryable y" by simp
  qed
  from Suc.IH [OF this, of "calls + 1" "sl0 @ [w]"]
  obtain sl where sl: "api_call_from left (Suc a) func msg (calls + 1, sl0 @ [w])
      = (Inl (RuntimeError msg), calls + 1 + int left, (sl0 @ [w]) @ sl)" and l: "length sl = left"
    by blast
  have "api_call_from (Suc left) a func msg (calls, sl0)
      = (Inl (RuntimeError msg), calls + int (Suc left), sl0 @ (w # sl))"
    using x w sl by simp
  moreover have "length (w # sl) = Suc left" using l by simp
  ultimately show ?case by blast
qed

lemma api_call_from_attempts:
  "fst (snd (api_call_from left a func msg (calls, sl0))) \<le> calls + int left \<and>
   calls \<le> fst (snd (api_call_from left a func msg (calls, sl0)))"
proof (induction left arbitrary: a calls sl0)
  case 0
  then show ?case by simp
next
  case (Suc left)
  show ?case
  proof (cases "func a")
    case (Returns r)
    then show ?thesis by simp
  next
    case (Raises e)
    show ?thesis
    proof (cases "retry_wait e a")
      case None
      then show ?thesis using Raises by simp
    next
      case (Some w)
      from Suc.IH [of "Suc a" "calls + 1" "sl0 @ [w]"]
      show ?thesis using Raises Some by simp
    qed
  qed
qed

lemma api_call_exhausted:
  assumes "\<forall>j<5. \<exists>x. func j = Raises x \<and> retryable x"
  shows "\<exists>sl. api_call func msg (calls, sl0) = (Inl (RuntimeError msg), calls + 5, sl0 @ sl) \<and>
            length sl = 5"
  using api_call_from_exhausted [of 5 func 0 msg calls sl0] assms
  by (simp add: api_call_def max_retries_def)

lemma api_call_attempts:
  "fst (snd (api_call func msg (calls, sl0))) \<le> calls + 5"
  using api_call_from_attempts [of 5 0 func msg calls sl0]
  by (simp add: api_call_def max_retries_def)

text \<open>
  C7 at a listing whose continuation call is rate limited at every attempt, in a fresh
  run on an empty disk. \<^verbatim>\<open>DropboxInventory.run\<close> makes the initial call and five
  attempts of the continuation, sleeps 1, 2, 4, 8 and 16 seconds, and the
  \<^verbatim>\<open>RuntimeError\<close> leaves \<^verbatim>\<open>run\<close> with two entries and the cursor \<^verbatim>\<open>c1\<close> in memory and
  nothing written: the disk is as empty as before. \<^verbatim>\<open>HybridInventory.run\<close> at the same
  listing catches the error in \<^verbatim>\<open>_continue_recursive\<close>, logs it, and its final save
  writes the checkpoint with the cursor \<^verbatim>\<open>c1\<close> and the two entries.
\<close>

theorem run_aborts_without_checkpoint:
  "fst (run throttled_remote never_due 5 None False (dbx_init empty_disk))
     = Raised (RuntimeError ''Max retries exceeded for list_folder_continue'') \<and>
   api_calls (snd (run throttled_remote never_due 5 None False (dbx_init empty_disk))) = 6 \<and>
   slept (snd (run throttled_remote never_due 5 None False (dbx_init empty_disk)))
     = [1, 2, 4, 8, 16] \<and>
   length (entries (snd (run throttled_remote never_due 5 None False (dbx_init empty_disk)))) = 2 \<and>
   cursor (snd (run throttled_remote never_due 5 None False (dbx_init empty_disk))) = Some ''c1'' \<and>
   files (snd (run throttled_remote never_due 5 None False (dbx_init empty_disk))) = empty_disk \<and>
   fst (hybrid_run throttled_remote never_due 5 (hybrid_init empty_disk)) = Finished \<and>
   h_logged (snd (hybrid_run throttled_remote never_due 5 (hybrid_init empty_disk)))
     = [RuntimeError ''Max retries exceeded''] \<and>
   h_api_calls (snd (hybrid_run throttled_remote never_due 5 (hybrid_init empty_disk))) = 6 \<and>
   hybrid_checkpoint (h_files (snd (hybrid_run throttled_remote never_due 5
       (hybrid_init empty_disk))))
     = Some (Parsed \<lparr> ck_cursor = Some ''c1'', ck_has_more = Some True,
          ck_entries_count = Some 2, ck_api_calls = Some 6, ck_folders_seen = None \<rparr>)"
  by code_simp

section \<open>Depth of an entry\<close>

lemma str_split_not_Nil: "str_split sep s \<noteq> []"
  by (induction s) auto

lemma length_str_split: "length (str_split sep s) = Suc (count_list s sep)"
proof (induction s)
  case Nil
  show ?case by simp
next
  case (Cons c cs)
  have "length (tl (str_split sep cs)) = count_list cs sep"
    using Cons.IH by simp
  then show ?case using Cons.IH by simp
qed

lemma count_list_append_sep: "count_list (xs @ ys) c = count_list xs c + count_list ys c"
  by (induction xs) auto

lemma count_sep_path_of_segments:
  "\<forall>s \<in> set segs. CHR ''/'' \<notin> set s \<Longrightarrow>
   count_list (path_of_segments segs) CHR ''/'' = length segs"
proof (induction segs)
  case Nil
  show ?case by (simp add: path_of_segments_def)
next
  case (Cons s segs)
  have "count_list s CHR ''/'' = 0"
    using Cons.prems by (simp add: count_list_0_iff)
  moreover have "count_list (path_of_segments segs) CHR ''/'' = length segs"
    using Cons by simp
  ultimately show ?case
    by (simp add: path_of_segments_def count_list_append_sep)
qed

lemma process_entry_depth:
  "process_entry md = Some e \<Longrightarrow>
   path e = path_display md \<and>
   folder_depth e = int (length (str_split CHR ''/'' (path_display md))) - 1"
  by (cases md) (auto simp: Let_def)

text \<open>
  C8, as the code has it. For every file or folder record of the listing,
  \<^verbatim>\<open>_process_entry\<close> produces an entry whose \<^verbatim>\<open>folder_depth\<close> is the number of parts
  of \<^verbatim>\<open>path_display.split('/')\<close> minus one, which is the number of separators in the
  path; for a canonical absolute path that is the number of its segments (not that
  number minus one). So folder \<^verbatim>\<open>/A\<close> has depth 1, file \<^verbatim>\<open>/A/f.txt\<close> depth 2 and
  file \<^verbatim>\<open>/B.txt\<close> depth 1.
\<close>

theorem process_entry_depth_counts_separators:
  assumes "is_FileMetadata md \<or> is_FolderMetadata md"
  shows "\<exists>e. process_entry md = Some e \<and> path e = path_display md \<and>
           folder_depth e = int (length (str_split CHR ''/'' (path e))) - 1 \<and>
           folder_depth e = int (count_list (path e) CHR ''/'') \<and>
           (\<forall>segs. (\<forall>s \<in> set segs. CHR ''/'' \<notin> set s) \<and> path e = path_of_segments segs
              \<longrightarrow> folder_depth e = int (length segs))"
proof -
  obtain e where e: "process_entry md = Some e"
    using assms by (cases md) (auto simp: Let_def)
  have p: "path e = path_display md"
    and d: "folder_depth e = int (length (str_split CHR ''/'' (path_display md))) - 1"
    using process_entry_depth [OF e] by simp_all
  have c: "folder_depth e = int (count_list (path e) CHR ''/'')"
    using d p by (simp add: length_str_split)
  have "\<forall>segs. (\<forall>s \<in> set segs. CHR ''/'' \<notin> set s) \<and> path e = path_of_segments segs
          \<longrightarrow> folder_depth e = int (length segs)"
    using c by (simp add: count_sep_path_of_segments)
  then show ?thesis using e p d c by simp
qed

theorem process_entry_depth_counts_separators_witness:
  "map_option folder_depth (process_entry (FolderMetadata ''A'' ''/A'' ''/a'' ''id:A'')) = Some 1 \<and>
   map_option folder_depth
     (process_entry (FileMetadata ''f.txt'' ''/A/f.txt'' ''/a/f.txt'' 1024 None None ''r1'' ''id:f''))
     = Some 2 \<and>
   map_option folder_depth
     (process_entry (FileMetadata ''B.txt'' ''/B.txt'' ''/b.txt'' 2048 None None ''r2'' ''id:B''))
     = Some 1 \<and>
   ''/A/f.txt'' = path_of_segments [''A'', ''f.txt'']"
proof -
  have "is_FileMetadata (FolderMetadata ''A'' ''/A'' ''/a'' ''id:A'') \<or>
        is_FolderMetadata (FolderMetadata ''A'' ''/A'' ''/a'' ''id:A'')"
    by simp
  from process_entry_depth_counts_separators [OF this]
  have "map_option folder_depth (process_entry (FolderMetadata ''A'' ''/A'' ''/a'' ''id:A''))
          = Some 1"
    by (auto simp: Let_def)
  then show ?thesis by (simp add: Let_def path_of_segments_def)
qed

text \<open>
  C8 as the specification words it fails on the code: the folder \<^verbatim>\<open>/A\<close> has one path
  segment, so "segments minus one" is 0, and the code records depth 1.
\<close>

theorem process_entry_depth_counterexample:
  "map_option folder_depth (process_entry (FolderMetadata ''A'' ''/A'' ''/a'' ''id:A'')) = Some 1 \<and>
   int (length (spec_path_segments ''/A'')) - 1 = 0 \<and>
   map_option folder_depth (process_entry (FolderMetadata ''A'' ''/A'' ''/a'' ''id:A''))
     \<noteq> Some (int (length (spec_path_segments ''/A'')) - 1)"
  by (simp add: Let_def spec_path_segments_def)

section \<open>The root-set check of the verifier\<close>

text \<open>
  C9. When the inventory file parses and the shallow listing of the root ends, \<^verbatim>\<open>main\<close>
  returns a report and leaves the disk as it found it. Every root folder path of the
  live listing that is not the path of a depth-1 folder of the inventory is in
  \<^verbatim>\<open>missing_in_inventory\<close>, which is exactly the set of these paths, and \<^verbatim>\<open>issues\<close> then
  holds the one issue "Missing n root folders" with \<open>n\<close> the number of these paths, at
  least 1. Every depth-1 folder path of the inventory that the live listing lacks is in
  \<^verbatim>\<open>extra_in_inventory\<close> and not among the missing ones, and \<^verbatim>\<open>issues\<close> is a function of
  the missing set alone: it is empty when nothing is missing, whatever is extra.
\<close>

theorem root_set_check_asymmetry:
  assumes "hybrid_inventory_json d = Some (Parsed data)"
    and "inv_entries data = Some es" and "inv_summary data = Some sm"
    and "list_root remote fuel = Some (Inr (api_root_folders, api_root_files))"
  shows "\<exists>rep. verify_main remote fuel d = (Some (Inr rep), d) \<and>
           (\<forall>p \<in> set api_root_folders.
              p \<notin> path ` set (get_inventory_folders_at_depth es 1) \<longrightarrow>
                p \<in> missing_in_inventory rep \<and>
                issues rep = [Missing_root_folders (card (missing_in_inventory rep))] \<and>
                0 < card (missing_in_inventory rep)) \<and>
           (\<forall>p \<in> path ` set (get_inventory_folders_at_depth es 1).
              p \<notin> set api_root_folders \<longrightarrow>
                p \<in> extra_in_inventory rep \<and> p \<notin> missing_in_inventory rep) \<and>
           missing_in_inventory rep
             = set api_root_folders - path ` set (get_inventory_folders_at_depth es 1) \<and>
           issues rep = (if missing_in_inventory rep = {} then []
                         else [Missing_root_folders (card (missing_in_inventory rep))])"
proof -
  let ?rep = "root_set_check api_root_folders es"
  have v: "verify_main remote fuel d = (Some (Inr ?rep), d)"
    using assms by (simp add: verify_main_def)
  have fin: "finite (missing_in_inventory ?rep)"
    by (simp add: root_set_check_def Let_def)
  have m: "missing_in_inventory ?rep
      = set api_root_folders - path ` set (get_inventory_folders_at_depth es 1)"
    by (simp add: root_set_check_def Let_def)
  have x: "extra_in_inventory ?rep
      = path ` set (get_inventory_folders_at_depth es 1) - set api_root_folders"
    by (simp add: root_set_check_def Let_def)
  have i: "issues ?rep = (if missing_in_inventory ?rep = {} then []
                         else [Missing_root_folders (card (missing_in_inventory ?rep))])"
    by (simp add: root_set_check_def Let_def)
  have a: "\<forall>p \<in> set api_root_folders.
              p \<notin> path ` set (get_inventory_folders_at_depth es 1) \<longrightarrow>
                p \<in> missing_in_inventory ?rep \<and>
                issues ?rep = [Missing_root_folders (card (missing_in_inventory ?rep))] \<and>
                0 < card (missing_in_inventory ?rep)"
  proof (intro ballI impI)
    fix p assume "p \<in> set api_root_folders"
      and "p \<notin> path ` set (get_inventory_folders_at_depth es 1)"
    then have pm: "p \<in> missing_in_inventory ?rep" using m by simp
    then have ne: "missing_in_inventory ?rep \<noteq> {}" by blast
    then have "0 < card (missing_in_inventory ?rep)"
      using fin by (simp add: card_gt_0_iff)
    then show "p \<in> missing_in_inventory ?rep \<and>
                issues ?rep = [Missing_root_folders (card (missing_in_inventory ?rep))] \<and>
                0 < card (missing_in_inventory ?rep)"
      using pm ne i by simp
  qed
  have b: "\<forall>p \<in> path ` set (get_inventory_folders_at_depth es 1).
              p \<notin> set api_root_folders \<longrightarrow>
                p \<in> extra_in_inventory ?rep \<and> p \<notin> missing_in_inventory ?rep"
    using m x by simp
  show ?thesis using v a b m i by blast
qed

theorem root_set_check_asymmetry_witness:
  "\<exists>rep. verify_main verifier_remote 3 verifier_disk = (Some (Inr rep), verifier_disk) \<and>
     missing_in_inventory rep = {''/C''} \<and>
     issues rep = [Missing_root_folders 1] \<and>
     ''/D'' \<in> extra_in_inventory rep \<and>
     ''/D'' \<notin> missing_in_inventory rep"
proof -
  let ?es = "[root_folder ''A'', root_folder ''B'', root_folder ''D'', file_B]"
  let ?data = "\<lparr> inv_summary = Some (hybrid_summary ?es False 4), inv_entries = Some ?es \<rparr>"
  have 1: "hybrid_inventory_json verifier_disk = Some (Parsed ?data)"
    by (simp add: verifier_disk_def empty_disk_def)
  have 2: "inv_entries ?data = Some ?es" and 3: "inv_summary ?data = Some (hybrid_summary ?es False 4)"
    by simp_all
  have 4: "list_root verifier_remote 3 = Some (Inr ([''/A'', ''/B'', ''/C''], [''/B.txt'']))"
    by (simp add: list_root_def verifier_remote_def sort_page_def sort_entry_def numeral_3_eq_3)
  have inv: "path ` set (get_inventory_folders_at_depth ?es 1) = {''/A'', ''/B'', ''/D''}"
    by (simp add: get_inventory_folders_at_depth_def root_folder_def file_B_def)
  from root_set_check_asymmetry [OF 1 2 3 4]
  obtain rep where v: "verify_main verifier_remote 3 verifier_disk = (Some (Inr rep), verifier_disk)"
    and x: "\<forall>p \<in> path ` set (get_inventory_folders_at_depth ?es 1).
              p \<notin> set [''/A'', ''/B'', ''/C''] \<longrightarrow>
                p \<in> extra_in_inventory rep \<and> p \<notin> missing_in_inventory rep"
    and m: "missing_in_inventory rep
             = set [''/A'', ''/B'', ''/C''] - path ` set (get_inventory_folders_at_depth ?es 1)"
    and i: "issues rep = (if missing_in_inventory rep = {} then []
                         else [Missing_root_folders (card (missing_in_inventory rep))])"
    by blast
  have m': "missing_in_inventory rep = {''/C''}"
    unfolding m inv by auto
  have i': "issues rep = [Missing_root_folders 1]"
    using i m' by simp
  have d: "''/D'' \<in> extra_in_inventory rep \<and> ''/D'' \<notin> missing_in_inventory rep"
    using x unfolding inv by simp
  show ?thesis using v m' i' d by blast
qed

section \<open>Loading the progress of earlier runs\<close>

text \<open>
  C10, as the code has it. \<^verbatim>\<open>_load_old_progress\<close> on a disk where the old checkpoint
  and the hybrid script's own checkpoint both exist and parse: the cursor,
  \<^verbatim>\<open>has_more\<close> and the call counter after the load are those of the own checkpoint
  (with the defaults of \<^verbatim>\<open>.get\<close> for absent keys), whatever the old checkpoint says.
  When the own inventory file exists and parses, the load reports progress and the
  store is the one built from the empty store by inserting the own inventory's entries:
  nothing of the old inventory is left, every entry comes from the own file, and when
  the file's paths are pairwise different the entries are exactly the file's. When the
  own inventory file exists and is not JSON, \<^verbatim>\<open>json.load\<close> raises before the store is
  emptied and the \<^verbatim>\<open>except\<close> clause goes on: the load reports progress and the store
  is still the one the old inventory gave, under the own checkpoint's cursor.
\<close>

theorem own_checkpoint_priority:
  assumes "old_checkpoint (h_files st) = Some (Parsed old_ck)"
    and "hybrid_checkpoint (h_files st) = Some (Parsed own_ck)"
  shows "h_cursor (snd (load_old_progress st)) = ck_cursor own_ck \<and>
         h_has_more (snd (load_old_progress st)) = get_or (ck_has_more own_ck) True \<and>
         h_api_calls (snd (load_old_progress st)) = get_or (ck_api_calls own_ck) 0 \<and>
         (\<forall>data. hybrid_inventory_json (h_files st) = Some (Parsed data) \<longrightarrow>
            fst (load_old_progress st) \<and>
            h_entries (snd (load_old_progress st))
              = h_entries (add_entries (get_or (inv_entries data) []) (hybrid_init (h_files st))) \<and>
            entries_by_path (snd (load_old_progress st))
              = entries_by_path (add_entries (get_or (inv_entries data) [])
                  (hybrid_init (h_files st))) \<and>
            set (h_entries (snd (load_old_progress st))) \<subseteq> set (get_or (inv_entries data) []) \<and>
            (distinct (map path (get_or (inv_entries data) [])) \<longrightarrow>
               h_entries (snd (load_old_progress st)) = get_or (inv_entries data) [])) \<and>
         (hybrid_inventory_json (h_files st) = Some Unparsable \<longrightarrow>
            fst (load_old_progress st) \<and>
            h_entries (snd (load_old_progress st))
              = h_entries (snd (load_old_inventory (load_old_checkpoint st))) \<and>
            entries_by_path (snd (load_old_progress st))
              = entries_by_path (snd (load_old_inventory (load_old_checkpoint st))))"
proof -
  let ?ls = "load_old_inventory (load_old_checkpoint st)"
  have f: "h_files (snd ?ls) = h_files st" by (rule load_old_prefix_files)
  have own: "hybrid_checkpoint (h_files (snd ?ls)) = Some (Parsed own_ck)"
    using f assms(2) by simp
  have c: "h_cursor (snd (load_old_progress st)) = ck_cursor own_ck \<and>
         h_has_more (snd (load_old_progress st)) = get_or (ck_has_more own_ck) True \<and>
         h_api_calls (snd (load_old_progress st)) = get_or (ck_api_calls own_ck) 0"
    using own
    by (auto simp: load_old_progress_def load_own_progress_def Let_def add_entries_fields
        split: option.splits json_file.splits)
  have e: "\<forall>data. hybrid_inventory_json (h_files st) = Some (Parsed data) \<longrightarrow>
            fst (load_old_progress st) \<and>
            h_entries (snd (load_old_progress st))
              = h_entries (add_entries (get_or (inv_entries data) []) (hybrid_init (h_files st))) \<and>
            entries_by_path (snd (load_old_progress st))
              = entries_by_path (add_entries (get_or (inv_entries data) [])
                  (hybrid_init (h_files st))) \<and>
            set (h_entries (snd (load_old_progress st))) \<subseteq> set (get_or (inv_entries data) []) \<and>
            (distinct (map path (get_or (inv_entries data) [])) \<longrightarrow>
               h_entries (snd (load_old_progress st)) = get_or (inv_entries data) [])"
  proof (intro allI impI)
    fix data
    assume d: "hybrid_inventory_json (h_files st) = Some (Parsed data)"
    let ?es = "get_or (inv_entries data) []"
    let ?st1 = "(snd ?ls)\<lparr>h_cursor := ck_cursor own_ck,
        h_has_more := get_or (ck_has_more own_ck) True,
        h_api_calls := get_or (ck_api_calls own_ck) 0\<rparr>"
    have l: "load_old_progress st
        = (True, add_entries ?es (?st1\<lparr>h_entries := [], entries_by_path := []\<rparr>))"
      using own d f by (simp add: load_old_progress_def load_own_progress_def Let_def)
    have s: "h_entries (add_entries ?es (?st1\<lparr>h_entries := [], entries_by_path := []\<rparr>))
          = h_entries (add_entries ?es (hybrid_init (h_files st))) \<and>
        entries_by_path (add_entries ?es (?st1\<lparr>h_entries := [], entries_by_path := []\<rparr>))
          = entries_by_path (add_entries ?es (hybrid_init (h_files st)))"
      by (rule add_entries_store) (simp_all add: hybrid_init_def)
    have sub: "set (h_entries (add_entries ?es (hybrid_init (h_files st)))) \<subseteq> set ?es"
      using add_entries_subset [of ?es "hybrid_init (h_files st)"] by (simp add: hybrid_init_def)
    have dis: "distinct (map path ?es) \<longrightarrow>
        h_entries (add_entries ?es (hybrid_init (h_files st))) = ?es"
      using add_entries_distinct [OF store_ok_init, of ?es "h_files st"]
      by (simp add: hybrid_init_def)
    show "fst (load_old_progress st) \<and>
            h_entries (snd (load_old_progress st))
              = h_entries (add_entries ?es (hybrid_init (h_files st))) \<and>
            entries_by_path (snd (load_old_progress st))
              = entries_by_path (add_entries ?es (hybrid_init (h_files st))) \<and>
            set (h_entries (snd (load_old_progress st))) \<subseteq> set ?es \<and>
            (distinct (map path ?es) \<longrightarrow> h_entries (snd (load_old_progress st)) = ?es)"
      using l s sub dis by simp
  qed
  have u: "hybrid_inventory_json (h_files st) = Some Unparsable \<longrightarrow>
            fst (load_old_progress st) \<and>
            h_entries (snd (load_old_progress st)) = h_entries (snd ?ls) \<and>
            entries_by_path (snd (load_old_progress st)) = entries_by_path (snd ?ls)"
  proof
    assume d: "hybrid_inventory_json (h_files st) = Some Unparsable"
    have "fst (load_old_checkpoint st)"
      using assms(1) by (simp add: load_old_checkpoint_def)
    then have "fst ?ls"
      by (simp add: load_old_inventory_def split: option.splits json_file.splits)
    then show "fst (load_old_progress st) \<and>
            h_entries (snd (load_old_progress st)) = h_entries (snd ?ls) \<and>
            entries_by_path (snd (load_old_progress st)) = entries_by_path (snd ?ls)"
      using own d f by (simp add: load_old_progress_def load_own_progress_def Let_def)
  qed
  show ?thesis using c e u by blast
qed

theorem own_checkpoint_priority_witness:
  "h_cursor (snd (load_old_progress (hybrid_init both_disk))) = Some ''own'' \<and>
   h_has_more (snd (load_old_progress (hybrid_init both_disk))) \<and>
   h_api_calls (snd (load_old_progress (hybrid_init both_disk))) = 9 \<and>
   fst (load_old_progress (hybrid_init both_disk)) \<and>
   h_entries (snd (load_old_progress (hybrid_init both_disk))) = [file_B]"
proof -
  have a: "old_checkpoint (h_files (hybrid_init both_disk)) = Some (Parsed
      \<lparr> ck_cursor = Some ''old'', ck_has_more = Some False,
        ck_entries_count = Some 1, ck_api_calls = Some 5, ck_folders_seen = Some {''/a''} \<rparr>)"
    by (simp add: hybrid_init_def both_disk_def)
  have b: "hybrid_checkpoint (h_files (hybrid_init both_disk)) = Some (Parsed
      \<lparr> ck_cursor = Some ''own'', ck_has_more = Some True,
        ck_entries_count = Some 1, ck_api_calls = Some 9, ck_folders_seen = None \<rparr>)"
    by (simp add: hybrid_init_def both_disk_def)
  have c: "hybrid_inventory_json (h_files (hybrid_init both_disk))
      = Some (Parsed \<lparr> inv_summary = None, inv_entries = Some [file_B] \<rparr>)"
    by (simp add: hybrid_init_def both_disk_def)
  have d: "distinct (map path (get_or (inv_entries
      \<lparr> inv_summary = None, inv_entries = Some [file_B] \<rparr>) []))"
    by (simp add: get_or_def)
  note t = own_checkpoint_priority [OF a b]
  have "h_cursor (snd (load_old_progress (hybrid_init both_disk))) = Some ''own''"
    and "h_has_more (snd (load_old_progress (hybrid_init both_disk))) = get_or (Some True) True"
    and "h_api_calls (snd (load_old_progress (hybrid_init both_disk))) = get_or (Some 9) 0"
    using t by simp_all
  moreover have "fst (load_old_progress (hybrid_init both_disk))"
    using t c by blast
  moreover have "h_entries (snd (load_old_progress (hybrid_init both_disk)))
      = get_or (inv_entries \<lparr> inv_summary = None, inv_entries = Some [file_B] \<rparr>) []"
    using t c d by blast
  ultimately show ?thesis by (simp add: get_or_def)
qed

text \<open>
  C10 as the specification words it fails on the code. On the disk where both
  checkpoints parse, the old inventory holds the folder \<^verbatim>\<open>/A\<close> and the own inventory
  file exists without being JSON, the load takes the cursor, \<^verbatim>\<open>has_more\<close> and the
  counter of the own checkpoint and keeps the entry of the old inventory: it is not
  discarded.
\<close>

theorem own_inventory_replaces_counterexample:
  "old_checkpoint torn_disk = Some (Parsed \<lparr> ck_cursor = Some ''old'',
      ck_has_more = Some False, ck_entries_count = Some 1, ck_api_calls = Some 5,
      ck_folders_seen = Some {''/a''} \<rparr>) \<and>
   old_inventory_json torn_disk
     = Some (Parsed \<lparr> inv_summary = None, inv_entries = Some [folder_A] \<rparr>) \<and>
   hybrid_checkpoint torn_disk = Some (Parsed \<lparr> ck_cursor = Some ''own'',
      ck_has_more = Some True, ck_entries_count = Some 1, ck_api_calls = Some 9,
      ck_folders_seen = None \<rparr>) \<and>
   hybrid_inventory_json torn_disk = Some Unparsable \<and>
   fst (load_old_progress (hybrid_init torn_disk)) \<and>
   h_cursor (snd (load_old_progress (hybrid_init torn_disk))) = Some ''own'' \<and>
   h_has_more (snd (load_old_progress (hybrid_init torn_disk))) \<and>
   h_api_calls (snd (load_old_progress (hybrid_init torn_disk))) = 9 \<and>
   h_entries (snd (load_old_progress (hybrid_init torn_disk))) = [folder_A] \<and>
   map fst (entries_by_path (snd (load_old_progress (hybrid_init torn_disk)))) = [''/A'']"
  by (simp add: torn_disk_def both_disk_def hybrid_init_def load_old_progress_def
      load_own_progress_def load_old_inventory_def load_old_checkpoint_def add_entries_def
      add_entry_def dict_has_def get_or_def folder_A_def Let_def)

end
